theory Spec2Isabelle
  imports Main "HOL-Library.Word"
begin

unbundle bit_operations_syntax

section \<open>Data model of \<open>x/wasm/client/cli/query.go\<close>\<close>

text \<open>
  A Go \<open>string\<close> is a \<open>string\<close> (a list of 8-bit characters), a Go \<open>[]byte\<close> is a list of
  \<open>8 word\<close>. The conversions \<open>[]byte(s)\<close> and \<open>string(b)\<close> copy the bytes one by one.
  A \<open>nil\<close> slice and an empty slice are both the empty list.
\<close>

type_synonym byte = "8 word"

definition bytes_of_string :: "string \<Rightarrow> byte list" where
  "bytes_of_string s = map of_char s"

definition string_of_bytes :: "byte list \<Rightarrow> string" where
  "string_of_bytes bs = map (\<lambda>b. char_of (unat b)) bs"

text \<open>
  Go errors as values. \<open>ErrorString\<close> is \<open>errors.New\<close>; \<open>Errorf p e\<close> is
  \<open>fmt.Errorf\<close> with the text \<open>p\<close> in front of the message of \<open>e\<close>; \<open>ErrLength\<close> and
  \<open>InvalidByteError\<close> are those of \<open>encoding/hex\<close>; \<open>CorruptInputError\<close> is that of
  \<open>encoding/base64\<close>, with the offset of the offending input byte.
\<close>

datatype error =
    ErrorString string
  | Errorf string error
  | ErrLength
  | InvalidByteError byte
  | CorruptInputError int

text \<open>A Go result \<open>([]byte, error)\<close>: the bytes, and \<open>None\<close> for a \<open>nil\<close> error.\<close>

type_synonym decoded = "byte list \<times> error option"

section \<open>The decoders the argument decoder dispatches to\<close>

subsection \<open>\<open>asciiDecodeString\<close> (query.go, lines 616 to 618)\<close>

definition asciiDecodeString :: "string \<Rightarrow> decoded" where
  "asciiDecodeString s = (bytes_of_string s, None)"

subsection \<open>\<open>hex.DecodeString\<close>\<close>

text \<open>
  Modelled from the spec: the spec's "hex decode" is \<open>hex.DecodeString\<close> of Go's
  \<open>encoding/hex\<close>, which query.go calls and which is not under src/. The definitions follow
  that library function: \<open>reverseHexTable\<close> maps the digits \<open>0-9\<close>, \<open>a-f\<close> and \<open>A-F\<close> to
  their value and every other byte to \<open>0xff\<close>; \<open>Decode\<close> reads the source two bytes at a
  time, stops at the first byte that is no digit with \<open>InvalidByteError\<close>, and reports
  \<open>ErrLength\<close> for a source of odd length whose bytes are all digits. \<open>DecodeString\<close>
  returns the bytes decoded before the error together with the error.
\<close>

definition reverseHexTable :: "byte \<Rightarrow> byte" where
  "reverseHexTable c =
     (if 0x30 \<le> c \<and> c \<le> 0x39 then c - 0x30
      else if 0x41 \<le> c \<and> c \<le> 0x46 then c - 0x41 + 10
      else if 0x61 \<le> c \<and> c \<le> 0x66 then c - 0x61 + 10
      else 0xff)"

fun hex_Decode :: "byte list \<Rightarrow> decoded" where
  "hex_Decode (p # q # src) =
     (let a = reverseHexTable p; b = reverseHexTable q in
      if a > 0x0f then ([], Some (InvalidByteError p))
      else if b > 0x0f then ([], Some (InvalidByteError q))
      else (case hex_Decode src of (dst, err) \<Rightarrow> ((push_bit 4 a OR b) # dst, err)))"
| "hex_Decode [p] =
     (if reverseHexTable p > 0x0f then ([], Some (InvalidByteError p))
      else ([], Some ErrLength))"
| "hex_Decode [] = ([], None)"

definition hex_DecodeString :: "string \<Rightarrow> decoded" where
  "hex_DecodeString s = hex_Decode (bytes_of_string s)"

text \<open>
  Modelled from the spec: "the hexadecimal encoding of B" is \<open>hex.EncodeToString\<close> of
  \<open>encoding/hex\<close> (not under src/): two lower-case digits per byte, high nibble first.
\<close>

definition hextable :: string where
  "hextable = ''0123456789abcdef''"

fun hex_Encode :: "byte list \<Rightarrow> byte list" where
  "hex_Encode [] = []"
| "hex_Encode (v # src) =
     of_char (hextable ! unat (drop_bit 4 v)) # of_char (hextable ! unat (v AND 0x0f))
       # hex_Encode src"

definition hex_EncodeToString :: "byte list \<Rightarrow> string" where
  "hex_EncodeToString src = string_of_bytes (hex_Encode src)"

subsection \<open>\<open>base64.StdEncoding.DecodeString\<close>\<close>

text \<open>
  Modelled from the spec: the spec's "standard base64 decode" is
  \<open>base64.StdEncoding.DecodeString\<close> of Go's \<open>encoding/base64\<close>, which query.go calls and
  which is not under src/. The definitions follow that library function for the encoding
  \<open>StdEncoding\<close> (the alphabet \<open>encodeStd\<close>, padding character \<open>=\<close>, not strict):
  \<^item> \<open>decodeMap\<close> is filled as \<open>NewEncoding\<close> fills it: \<open>0xff\<close> everywhere, then the
    index of every character of the alphabet;
  \<^item> \<open>quantumLoop\<close> is the loop \<open>for j := 0; j < len(dbuf); j++\<close> of \<open>decodeQuantum\<close>.
    Its arguments are the length of the whole source, the unread part \<open>src[si:]\<close>, the
    index \<open>si\<close>, the loop counter \<open>j\<close> and the buffer \<open>dbuf\<close>. \<open>QReturn\<close> is a
    \<open>return\<close> from inside the loop, \<open>QBreak\<close> is leaving the loop with \<open>dlen\<close>,
    \<open>dbuf\<close> and the pending error. Carriage returns and line feeds are skipped
    (\<open>j--; continue\<close>);
  \<^item> \<open>decodeQuantum\<close> turns the four 6-bit values into three bytes and keeps
    \<open>dlen - 1\<close> of them;
  \<^item> \<open>decodeLoop\<close> is the loop \<open>for si < len(src)\<close> of \<open>Decode\<close>. The two loops in
    front of it in the library decode eight and four alphabet characters at once and fall
    back to \<open>decodeQuantum\<close> otherwise; they compute the same bytes and are not modelled
    apart.
  Positions are \<open>int\<close>: a Go \<open>int\<close> does not overflow on the length of an argument.
\<close>

definition encodeStd :: string where
  "encodeStd = ''ABCDEFGHIJKLMNOPQRSTUVWXYZabcdefghijklmnopqrstuvwxyz0123456789+/''"

definition StdPadding :: int where
  "StdPadding = 61"

definition NoPadding :: int where
  "NoPadding = - 1"

definition padChar :: int where
  "padChar = StdPadding"

definition strict :: bool where
  "strict = False"

definition decodeMap :: "byte \<Rightarrow> byte" where
  "decodeMap =
     fold (\<lambda>(i, c) m. m(c := of_nat i)) (enumerate 0 (bytes_of_string encodeStd)) (\<lambda>_. 0xff)"

datatype quantum_loop =
    QReturn "byte list" int nat "error option"
  | QBreak "byte list" int nat "byte list" "error option"

fun qrest :: "quantum_loop \<Rightarrow> byte list" where
  "qrest (QReturn rest _ _ _) = rest"
| "qrest (QBreak rest _ _ _ _) = rest"

fun skipNewlines :: "byte list \<Rightarrow> int \<Rightarrow> byte list \<times> int" where
  "skipNewlines [] si = ([], si)"
| "skipNewlines (c # src) si =
     (if c = 0x0A \<or> c = 0x0D then skipNewlines src (si + 1) else (c # src, si))"

fun quantumLoop :: "int \<Rightarrow> byte list \<Rightarrow> int \<Rightarrow> nat \<Rightarrow> byte list \<Rightarrow> quantum_loop" where
  "quantumLoop len [] si j dbuf =
     (if 4 \<le> j then QBreak [] si 4 dbuf None
      else if j = 0 then QReturn [] si 0 None
      else if j = 1 \<or> padChar \<noteq> NoPadding
        then QReturn [] si 0 (Some (CorruptInputError (si - int j)))
      else QBreak [] si j dbuf None)"
| "quantumLoop len (c # src) si j dbuf =
     (if 4 \<le> j then QBreak (c # src) si 4 dbuf None
      else if decodeMap c \<noteq> 0xff
        then quantumLoop len src (si + 1) (j + 1) (dbuf[j := decodeMap c])
      else if c = 0x0A \<or> c = 0x0D then quantumLoop len src (si + 1) j dbuf
      else if uint c \<noteq> padChar
        then QReturn src (si + 1) 0 (Some (CorruptInputError (si + 1 - 1)))
      else if j = 0 \<or> j = 1
        then QReturn src (si + 1) 0 (Some (CorruptInputError (si + 1 - 1)))
      else if j = 2 then
        (case skipNewlines src (si + 1) of
           ([], si2) \<Rightarrow> QReturn [] si2 0 (Some (CorruptInputError len))
         | (c2 # src2, si2) \<Rightarrow>
             if uint c2 \<noteq> padChar
               then QReturn (c2 # src2) si2 0 (Some (CorruptInputError (si2 - 1)))
             else (case skipNewlines src2 (si2 + 1) of (src3, si3) \<Rightarrow>
                     QBreak src3 si3 j dbuf
                       (if src3 \<noteq> [] then Some (CorruptInputError si3) else None)))
      else (case skipNewlines src (si + 1) of (src3, si3) \<Rightarrow>
              QBreak src3 si3 j dbuf
                (if src3 \<noteq> [] then Some (CorruptInputError si3) else None)))"

definition decodeQuantum ::
    "int \<Rightarrow> byte list \<Rightarrow> int \<Rightarrow> byte list \<times> int \<times> byte list \<times> error option" where
  "decodeQuantum len src si =
     (case quantumLoop len src si 0 [0, 0, 0, 0] of
        QReturn rest nsi n err \<Rightarrow> (rest, nsi, [], err)
      | QBreak rest nsi dlen dbuf err \<Rightarrow>
          (let val = push_bit 18 (ucast (dbuf ! 0)) OR push_bit 12 (ucast (dbuf ! 1))
                       OR push_bit 6 (ucast (dbuf ! 2)) OR ucast (dbuf ! 3) :: 64 word;
               b2 = ucast (drop_bit 0 val) :: byte;
               b1 = ucast (drop_bit 8 val) :: byte;
               b0 = ucast (drop_bit 16 val) :: byte
           in if dlen = 3 \<and> strict \<and> b2 \<noteq> 0
                then (rest, nsi, [], Some (CorruptInputError (nsi - 1)))
              else if dlen = 2 \<and> strict \<and> (b1 \<noteq> 0 \<or> b2 \<noteq> 0)
                then (rest, nsi, [], Some (CorruptInputError (nsi - 2)))
              else (rest, nsi, take (dlen - 1) [b0, b1, b2], err)))"

function decodeLoop :: "int \<Rightarrow> byte list \<Rightarrow> int \<Rightarrow> decoded" where
  "decodeLoop len src si =
     (if src = [] then ([], None)
      else (case decodeQuantum len src si of
              (rest, nsi, out, err) \<Rightarrow>
                if err \<noteq> None then (out, err)
                else (case decodeLoop len rest nsi of (dst, err') \<Rightarrow> (out @ dst, err'))))"
  by pat_completeness auto
termination
proof (relation "measure (\<lambda>(len, src, si). length src)")
  show "wf (measure (\<lambda>(len, src, si). length src))" by simp
next
  fix len :: int and src :: "byte list" and si :: int and rest y nsi ya out err
  assume ne: "src \<noteq> []" and dq: "(rest, y) = decodeQuantum len src si"
  have skip: "length r \<le> length s" if "skipNewlines s i = (r, i')" for s i r i'
    using that by (induction s i rule: skipNewlines.induct) (auto split: if_splits)
  have ql: "length (qrest (quantumLoop l s i j d)) \<le> length s" for l s i j d
  proof (induction l s i j d rule: quantumLoop.induct)
    case (1 len si j dbuf)
    then show ?case by simp
  next
    case (2 len c src si j dbuf)
    then show ?case
      by (auto split: prod.splits list.splits dest!: skip)
  qed
  obtain c cs where src: "src = c # cs" using ne by (cases src) auto
  have "length (qrest (quantumLoop len src si 0 [0, 0, 0, 0])) < length src"
    unfolding src using ql[of len cs "si + 1"]
    by (auto split: prod.splits list.splits simp: less_Suc_eq_le dest!: skip)
  then show "((len, rest, nsi), len, src, si) \<in> measure (\<lambda>(len, src, si). length src)"
    using dq by (auto simp: decodeQuantum_def Let_def split: quantum_loop.splits if_splits)
qed

definition base64_DecodeString :: "string \<Rightarrow> decoded" where
  "base64_DecodeString s =
     (let src = bytes_of_string s in decodeLoop (int (length src)) src 0)"

text \<open>
  Modelled from the spec: "the standard-alphabet base64 encoding of B" is
  \<open>base64.StdEncoding.EncodeToString\<close> of \<open>encoding/base64\<close> (not under src/): four
  characters of the alphabet for every three bytes, and a last group padded with \<open>=\<close> for
  one or two remaining bytes.
\<close>

definition encode :: "64 word \<Rightarrow> byte" where
  "encode i = of_char (encodeStd ! unat i)"

fun base64_Encode :: "byte list \<Rightarrow> byte list" where
  "base64_Encode (s0 # s1 # s2 # src) =
     (let val = push_bit 16 (ucast s0) OR push_bit 8 (ucast s1) OR ucast s2 :: 64 word in
      encode (drop_bit 18 val AND 0x3F) # encode (drop_bit 12 val AND 0x3F)
        # encode (drop_bit 6 val AND 0x3F) # encode (val AND 0x3F) # base64_Encode src)"
| "base64_Encode [s0, s1] =
     (let val = push_bit 16 (ucast s0) OR push_bit 8 (ucast s1) :: 64 word in
      [encode (drop_bit 18 val AND 0x3F), encode (drop_bit 12 val AND 0x3F),
       encode (drop_bit 6 val AND 0x3F), 0x3D])"
| "base64_Encode [s0] =
     (let val = push_bit 16 (ucast s0) :: 64 word in
      [encode (drop_bit 18 val AND 0x3F), encode (drop_bit 12 val AND 0x3F), 0x3D, 0x3D])"
| "base64_Encode [] = []"

definition base64_EncodeToString :: "byte list \<Rightarrow> string" where
  "base64_EncodeToString src = string_of_bytes (base64_Encode src)"

section \<open>The argument decoder (query.go, lines 577 to 614)\<close>

record argumentDecoder =
  dec :: "string \<Rightarrow> decoded"
  asciiF :: bool
  hexF :: bool
  b64F :: bool

definition newArgDecoder :: "(string \<Rightarrow> decoded) \<Rightarrow> argumentDecoder" where
  "newArgDecoder def = \<lparr>dec = def, asciiF = False, hexF = False, b64F = False\<rparr>"

text \<open>
  The loop \<open>for i, v := range []*bool{&a.asciiF, &a.hexF, &a.b64F}\<close> of \<open>DecodeString\<close>:
  the list holds the remaining pairs of index and flag, \<open>found\<close> is threaded through, and
  the loop ends with \<open>Inl\<close> of the error it returns or with \<open>Inr\<close> of the final \<open>found\<close>.
\<close>

fun scanFlags :: "(int \<times> bool) list \<Rightarrow> int \<Rightarrow> error + int" where
  "scanFlags [] found = Inr found"
| "scanFlags ((i, v) # rest) found =
     (if \<not> v then scanFlags rest found
      else if found \<noteq> - 1 then Inl (ErrorString ''multiple decoding flags used'')
      else scanFlags rest i)"

text \<open>
  Which decoder a call of \<open>DecodeString\<close> invokes is part of its result: the first component
  lists the decoders called, in order, the second is the Go result.
\<close>

datatype decoder_call = CallAscii | CallHex | CallBase64 | CallDefault

definition DecodeString :: "argumentDecoder \<Rightarrow> string \<Rightarrow> decoder_call list \<times> decoded" where
  "DecodeString a s =
     (case scanFlags [(0, asciiF a), (1, hexF a), (2, b64F a)] (- 1) of
        Inl err \<Rightarrow> ([], ([], Some err))
      | Inr found \<Rightarrow>
          if found = 0 then ([CallAscii], asciiDecodeString s)
          else if found = 1 then ([CallHex], hex_DecodeString s)
          else if found = 2 then ([CallBase64], base64_DecodeString s)
          else ([CallDefault], dec a s))"

section \<open>Flags and the page key (query.go, lines 587 to 591 and 620 to 635)\<close>

text \<open>
  Modelled from the spec: the flags that "select pagination controls and decoding mode"
  are a \<open>pflag.FlagSet\<close>; the type and its methods \<open>GetString\<close> and \<open>Set\<close> belong to
  the \<open>pflag\<close> library and are not under src/. A flag set after parsing is modelled as the
  defined flags by name, each with its typed value.
  \<open>GetString\<close> fails for a flag that is not defined or is no string flag; \<open>Set\<close> fails
  for a flag that is not defined, and stores any text in a string flag. For a flag of
  another type the library parses the text; \<open>withPageKeyDecoded\<close> reaches \<open>Set\<close> only
  after \<open>GetString\<close> has succeeded on the same flag, so that case does not arise, and
  the model answers it with an error.
  \<open>RegisterFlags\<close> binds the three fields of the decoder to the flags \<open>ascii\<close>, \<open>hex\<close>
  and \<open>b64\<close>, default false: when the command runs, each field holds the parsed value of
  its flag.
\<close>

datatype flagValue = StringValue string | Uint64Value "64 word" | BoolValue bool

type_synonym flagSet = "string \<Rightarrow> flagValue option"

definition FlagPageKey :: string where
  "FlagPageKey = ''page-key''"

definition GetString :: "flagSet \<Rightarrow> string \<Rightarrow> error + string" where
  "GetString f name =
     (case f name of
        None \<Rightarrow> Inl (ErrorString (''flag accessed but not defined: '' @ name))
      | Some (StringValue sval) \<Rightarrow> Inr sval
      | Some (Uint64Value _) \<Rightarrow> Inl (ErrorString ''trying to get string value of flag of type uint64'')
      | Some (BoolValue _) \<Rightarrow> Inl (ErrorString ''trying to get string value of flag of type bool''))"

definition Set_flag :: "flagSet \<Rightarrow> string \<Rightarrow> string \<Rightarrow> error + flagSet" where
  "Set_flag f name val =
     (case f name of
        None \<Rightarrow> Inl (ErrorString (''no such flag -'' @ name))
      | Some (StringValue _) \<Rightarrow> Inr (f(name \<mapsto> StringValue val))
      | Some _ \<Rightarrow> Inl (Errorf (''invalid argument for flag '' @ name) (ErrorString val)))"

definition GetBool_or_false :: "flagSet \<Rightarrow> string \<Rightarrow> bool" where
  "GetBool_or_false f name = (case f name of Some (BoolValue b) \<Rightarrow> b | _ \<Rightarrow> False)"

definition RegisterFlags :: "flagSet \<Rightarrow> argumentDecoder \<Rightarrow> argumentDecoder" where
  "RegisterFlags f a =
     a\<lparr>asciiF := GetBool_or_false f ''ascii'',
       hexF := GetBool_or_false f ''hex'',
       b64F := GetBool_or_false f ''b64''\<rparr>"

text \<open>
  \<open>withPageKeyDecoded\<close>: \<open>Inl\<close> is a panic, with the error whose message is the panic
  value; \<open>Inr\<close> is the flag set it returns.
\<close>

definition withPageKeyDecoded :: "flagSet \<Rightarrow> error + flagSet" where
  "withPageKeyDecoded flagSet =
     (case GetString flagSet FlagPageKey of
        Inl err \<Rightarrow> Inl err
      | Inr encoded \<Rightarrow>
          (case base64_DecodeString encoded of
             (raw, Some err) \<Rightarrow> Inl err
           | (raw, None) \<Rightarrow>
               (case Set_flag flagSet FlagPageKey (string_of_bytes raw) of
                  Inl err \<Rightarrow> Inl err
                | Inr flagSet' \<Rightarrow> Inr flagSet')))"

section \<open>The commands\<close>

text \<open>
  What a command gets from outside this file is a parameter, collected in \<open>env\<close>: the client
  context, \<open>strconv.ParseUint\<close>, the bech32 check, \<open>client.ReadPageRequest\<close>,
  \<open>json.Valid\<close>, the methods of the query client (the remote node), the printer, the
  file system and \<open>wasmvm.LibwasmvmVersion\<close>. Each of these library calls returns its
  result or an error, as its Go signature says; that none of them panics is an assumption
  of the model, not a fact proved here.

  Modelled from the spec: \<open>keeper.BuildAddressPredictable\<close>, which "derives a
  predictable contract address", is code of this repository's \<open>keeper\<close> package and is
  not under src/. It is a parameter too, with three ways to end: it gives an address, it
  fails with an error, or it panics (its checks of the code hash, the creator and the salt
  end in \<open>panic\<close>). \<open>build-address\<close> has no \<open>recover\<close>, so such a panic ends the run.
\<close>

datatype 'a call = Gives 'a | Fails error | Panics error

type_synonym proto = string

record PageRequest =
  Key :: "byte list"
  Limit :: "64 word"
  Reverse :: bool

record QueryCodeResponse =
  Data :: "byte list"

record QueryBuildAddressRequest =
  CodeHash :: string
  CreatorAddress :: string
  Salt :: string
  InitArgs :: "byte list"

datatype request =
    QueryCodesRequest PageRequest
  | QueryContractsByCodeRequest "64 word" PageRequest
  | QueryCodeRequest "64 word"
  | QueryCodeInfoRequest "64 word"
  | QueryContractInfoRequest string
  | QueryAllContractStateRequest string PageRequest
  | QueryRawContractStateRequest string "byte list"
  | QuerySmartContractStateRequest string "byte list"
  | QueryContractHistoryRequest string PageRequest
  | QueryPinnedCodesRequest PageRequest
  | QueryContractsByCreatorRequest string PageRequest
  | QueryParamsRequest

record env =
  GetClientQueryContext :: "error option"
  ParseUint :: "string \<Rightarrow> error + 64 word"
  AccAddressFromBech32 :: "string \<Rightarrow> error option"
  ReadPageRequest :: "flagSet \<Rightarrow> error + PageRequest"
  json_Valid :: "byte list \<Rightarrow> bool"
  Code :: "64 word \<Rightarrow> error + QueryCodeResponse"
  queryClient :: "request \<Rightarrow> error + proto"
  PrintProto :: "proto \<Rightarrow> error option"
  WriteFile :: "string \<Rightarrow> byte list \<Rightarrow> error option"
  LibwasmvmVersion :: "error + string"
  BuildAddressPredictable :: "QueryBuildAddressRequest \<Rightarrow> string call"

text \<open>
  What a run does to the outside, in order: a remote query sent, a line or a message
  printed, a file written. A run ends by returning its error (\<open>None\<close> for \<open>nil\<close>) or by
  a panic.
\<close>

datatype event =
    Query request
  | Println string
  | Printf string
  | Print proto
  | FileWrite string "byte list"

datatype outcome = Return "error option" | Panic error

type_synonym run = "event list \<times> outcome"

text \<open>
  The common tail of the commands that print what the node answers:
  \<open>res, err := queryClient.M(ctx, req); if err != nil { return err };
  return clientCtx.PrintProto(res)\<close>.
\<close>

definition queryAndPrint :: "env \<Rightarrow> request \<Rightarrow> run" where
  "queryAndPrint e req =
     (case queryClient e req of
        Inl err \<Rightarrow> ([Query req], Return (Some err))
      | Inr res \<Rightarrow> ([Query req, Print res], Return (PrintProto e res)))"

text \<open>
  The step \<open>pageReq, err := client.ReadPageRequest(withPageKeyDecoded(cmd.Flags()))\<close>
  followed by the query built from the page request.
\<close>

definition withPageRequest :: "env \<Rightarrow> flagSet \<Rightarrow> (PageRequest \<Rightarrow> request) \<Rightarrow> run" where
  "withPageRequest e flags mk =
     (case withPageKeyDecoded flags of
        Inl p \<Rightarrow> ([], Panic p)
      | Inr flags' \<Rightarrow>
          (case ReadPageRequest e flags' of
             Inl err \<Rightarrow> ([], Return (Some err))
           | Inr pageReq \<Rightarrow> queryAndPrint e (mk pageReq)))"




definition GetCmdListContractByCode :: "env \<Rightarrow> flagSet \<Rightarrow> string \<Rightarrow> run" where
  "GetCmdListContractByCode e flags arg0 =
     (case GetClientQueryContext e of
        Some err \<Rightarrow> ([], Return (Some err))
      | None \<Rightarrow>
          (case ParseUint e arg0 of
             Inl err \<Rightarrow> ([], Return (Some err))
           | Inr codeID \<Rightarrow>
               if codeID = 0 then ([], Return (Some (ErrorString ''empty code id'')))
               else withPageRequest e flags (QueryContractsByCodeRequest codeID)))"

definition GetCmdQueryCode :: "env \<Rightarrow> string \<Rightarrow> string \<Rightarrow> run" where
  "GetCmdQueryCode e arg0 arg1 =
     (case GetClientQueryContext e of
        Some err \<Rightarrow> ([], Return (Some err))
      | None \<Rightarrow>
          (case ParseUint e arg0 of
             Inl err \<Rightarrow> ([], Return (Some err))
           | Inr codeID \<Rightarrow>
               (case Code e codeID of
                  Inl err \<Rightarrow> ([Query (QueryCodeRequest codeID)], Return (Some err))
                | Inr res \<Rightarrow>
                    if length (Data res) = 0
                      then ([Query (QueryCodeRequest codeID)],
                            Return (Some (ErrorString ''contract not found'')))
                    else ([Query (QueryCodeRequest codeID),
                           Printf (''Downloading wasm code to '' @ arg1 @ [CHR 0x0A]),
                           FileWrite arg1 (Data res)],
                          Return (WriteFile e arg1 (Data res))))))"





definition GetCmdGetContractStateSmart :: "env \<Rightarrow> flagSet \<Rightarrow> string \<Rightarrow> string \<Rightarrow> run" where
  "GetCmdGetContractStateSmart e flags arg0 arg1 =
     (let decoder = RegisterFlags flags (newArgDecoder asciiDecodeString) in
      case GetClientQueryContext e of
        Some err \<Rightarrow> ([], Return (Some err))
      | None \<Rightarrow>
          (case AccAddressFromBech32 e arg0 of
             Some err \<Rightarrow> ([], Return (Some err))
           | None \<Rightarrow>
               if arg1 = []
                 then ([], Return (Some (ErrorString ''query data must not be empty'')))
               else
                 (case snd (DecodeString decoder arg1) of
                    (queryData, Some err) \<Rightarrow>
                      ([], Return (Some (Errorf ''decode query: '' err)))
                  | (queryData, None) \<Rightarrow>
                      if \<not> json_Valid e queryData
                        then ([], Return (Some (ErrorString ''query data must be json'')))
                      else queryAndPrint e (QuerySmartContractStateRequest arg0 queryData))))"















section \<open>Well-formed input, as the spec words it\<close>

text \<open>
  The spec's "valid hex string" and "valid standard-alphabet base64", as predicates on the
  bytes of the argument. A valid hex string has an even number of bytes, all of them
  hexadecimal digits of either case. Valid standard base64 (RFC 4648, section 4) is a
  sequence of groups of four characters of the alphabet, where the last group may end in
  one or two padding characters \<open>=\<close>; the bits a padded group leaves unused are not
  constrained. \<open>withoutNewlines\<close> drops the line feeds and carriage returns.
\<close>

definition hexDigits :: "byte set" where
  "hexDigits = set (bytes_of_string ''0123456789abcdefABCDEF'')"

definition validHex :: "byte list \<Rightarrow> bool" where
  "validHex src = (even (length src) \<and> set src \<subseteq> hexDigits)"

definition alphabetStd :: "byte set" where
  "alphabetStd = set (bytes_of_string encodeStd)"

fun validStdBase64 :: "byte list \<Rightarrow> bool" where
  "validStdBase64 [] = True"
| "validStdBase64 [a, b, c, d] =
     (a \<in> alphabetStd \<and> b \<in> alphabetStd
      \<and> ((c \<in> alphabetStd \<and> (d \<in> alphabetStd \<or> d = 0x3D)) \<or> (c = 0x3D \<and> d = 0x3D)))"
| "validStdBase64 (a # b # c # d # rest) =
     (a \<in> alphabetStd \<and> b \<in> alphabetStd \<and> c \<in> alphabetStd \<and> d \<in> alphabetStd
      \<and> validStdBase64 rest)"
| "validStdBase64 _ = False"

definition withoutNewlines :: "byte list \<Rightarrow> byte list" where
  "withoutNewlines src = filter (\<lambda>c. c \<noteq> 0x0A \<and> c \<noteq> 0x0D) src"

text \<open>
  The shape of the input that one successful pass of \<open>quantumLoop\<close> has read, line breaks
  apart, when it was entered with \<open>j\<close> values in the buffer and left with \<open>dlen\<close>: the
  missing characters of the alphabet, followed by what is left to read (a full group), by
  one padding character (three values) or by two (two values).
\<close>

definition quantumShape :: "nat \<Rightarrow> nat \<Rightarrow> byte list \<Rightarrow> byte list \<Rightarrow> bool" where
  "quantumShape j dlen stripped rest \<longleftrightarrow>
     (\<exists>ds. set ds \<subseteq> alphabetStd \<and> j + length ds = dlen
        \<and> ((dlen = 4 \<and> stripped = ds @ withoutNewlines rest)
           \<or> (dlen = 3 \<and> rest = [] \<and> stripped = ds @ [0x3D])
           \<or> (dlen = 2 \<and> rest = [] \<and> stripped = ds @ [0x3D, 0x3D])))"

text \<open>
  \<open>addPaginationFlags\<close> (query.go, lines 668 to 672): the three pagination flags with
  their defaults. The names are constants of the SDK's \<open>flags\<close> package.
\<close>

definition FlagLimit :: string where
  "FlagLimit = ''limit''"

definition FlagReverse :: string where
  "FlagReverse = ''reverse''"

definition addPaginationFlags :: "flagSet \<Rightarrow> flagSet" where
  "addPaginationFlags f =
     f(FlagPageKey \<mapsto> StringValue [], FlagLimit \<mapsto> Uint64Value 100,
       FlagReverse \<mapsto> BoolValue False)"

text \<open>
  An environment and flag sets to run the commands on concrete inputs: every outside call
  succeeds, \<open>ParseUint\<close> knows the texts \<open>0\<close> and \<open>7\<close>, the node has byte code for
  code id 7 only, \<open>{}\<close> is the one JSON text, and the address builder panics on a code
  hash that is not 64 characters long.
\<close>

definition exampleEnv :: env where
  "exampleEnv =
     \<lparr>GetClientQueryContext = None,
      ParseUint = (\<lambda>s. if s = ''0'' then Inr 0 else if s = ''7'' then Inr 7
                        else Inl (ErrorString ''invalid syntax'')),
      AccAddressFromBech32 = (\<lambda>_. None),
      ReadPageRequest = (\<lambda>_. Inr \<lparr>Key = [], Limit = 100, Reverse = False\<rparr>),
      json_Valid = (\<lambda>b. b = [0x7b, 0x7d]),
      Code = (\<lambda>codeID. Inr \<lparr>Data = (if codeID = 7 then [0x00, 0x61, 0x73, 0x6d] else [])\<rparr>),
      queryClient = (\<lambda>_. Inr ''response''),
      PrintProto = (\<lambda>_. None),
      WriteFile = (\<lambda>_ _. None),
      LibwasmvmVersion = Inr ''2.0.0'',
      BuildAddressPredictable =
        (\<lambda>req. if length (CodeHash req) = 64 then Gives ''address''
                else Panics (ErrorString ''invalid checksum''))\<rparr>"

definition noFlags :: flagSet where
  "noFlags = addPaginationFlags Map.empty"


section \<open>Bytes and characters\<close>

lemma unat_of_char: "unat (of_char c :: byte) = of_char c"
proof -
  have "(of_char c :: byte) = of_nat (of_char c)" by (simp add: of_nat_of_char)
  then have "unat (of_char c :: byte) = unat (of_nat (of_char c) :: byte)" by simp
  also have "\<dots> = of_char c mod 256" by (simp add: unat_of_nat)
  finally show ?thesis by simp
qed

lemma of_char_char_of_unat: "of_char (char_of (unat b)) = (b :: byte)"
proof -
  have lt: "unat b < 256" using unsigned_less[of b, where 'a = nat] by simp
  have "(of_char (char_of (unat b)) :: nat) = unat b mod 256" by simp
  then have n: "(of_char (char_of (unat b)) :: nat) = unat b" using lt by simp
  have "(of_char (char_of (unat b)) :: byte) = of_nat (of_char (char_of (unat b)))"
    by (simp only: of_nat_of_char)
  also have "\<dots> = of_nat (unat b)" by (simp only: n)
  also have "\<dots> = b" by simp
  finally show ?thesis .
qed

lemma bytes_of_string_of_bytes: "bytes_of_string (string_of_bytes bs) = bs"
  by (simp add: bytes_of_string_def string_of_bytes_def o_def of_char_char_of_unat)

lemma string_of_bytes_of_string: "string_of_bytes (bytes_of_string s) = s"
  by (simp add: bytes_of_string_def string_of_bytes_def o_def unat_of_char)

section \<open>The flag scan\<close>

lemma scanFlags_three:
  "scanFlags [(0, x), (1, y), (2, z)] (- 1) =
     (if (x \<and> y) \<or> (x \<and> z) \<or> (y \<and> z)
        then Inl (ErrorString ''multiple decoding flags used'')
      else if x then Inr 0 else if y then Inr 1 else if z then Inr 2 else Inr (- 1))"
  by simp

text \<open>
  C1. Whenever two or more of the flags \<open>ascii\<close>, \<open>hex\<close> and \<open>b64\<close> are set,
  \<open>DecodeString\<close> returns the error "multiple decoding flags used" with no bytes and
  calls no decoder, whatever the input string and the default decoder are.
\<close>

theorem DecodeString_multiple_flags:
  assumes "(asciiF a \<and> hexF a) \<or> (asciiF a \<and> b64F a) \<or> (hexF a \<and> b64F a)"
  shows "DecodeString a s = ([], ([], Some (ErrorString ''multiple decoding flags used'')))"
  using assms unfolding DecodeString_def scanFlags_three by auto

theorem DecodeString_multiple_flags_witness:
  "DecodeString \<lparr>dec = asciiDecodeString, asciiF = False, hexF = True, b64F = True\<rparr> ''6869''
     = ([], ([], Some (ErrorString ''multiple decoding flags used'')))"
  using DecodeString_multiple_flags
    [of "\<lparr>dec = asciiDecodeString, asciiF = False, hexF = True, b64F = True\<rparr>" "''6869''"]
  by simp

text \<open>
  C2. With exactly one flag set, \<open>DecodeString\<close> calls the decoder of that flag and returns
  its result: the byte cast for \<open>ascii\<close>, \<open>hex.DecodeString\<close> for \<open>hex\<close>,
  \<open>base64.StdEncoding.DecodeString\<close> for \<open>b64\<close>. With no flag set it calls the default
  decoder and returns its result; a decoder made by \<open>newArgDecoder def\<close> has no flag set
  and \<open>def\<close> as its default.
\<close>

theorem DecodeString_dispatch:
  "(asciiF a \<and> \<not> hexF a \<and> \<not> b64F a \<longrightarrow>
      DecodeString a s = ([CallAscii], (bytes_of_string s, None)))
   \<and> (\<not> asciiF a \<and> hexF a \<and> \<not> b64F a \<longrightarrow>
      DecodeString a s = ([CallHex], hex_DecodeString s))
   \<and> (\<not> asciiF a \<and> \<not> hexF a \<and> b64F a \<longrightarrow>
      DecodeString a s = ([CallBase64], base64_DecodeString s))
   \<and> (\<not> asciiF a \<and> \<not> hexF a \<and> \<not> b64F a \<longrightarrow>
      DecodeString a s = ([CallDefault], dec a s))
   \<and> DecodeString (newArgDecoder def) s = ([CallDefault], def s)"
  unfolding DecodeString_def scanFlags_three newArgDecoder_def asciiDecodeString_def by simp

lemma hex_DecodeString_6a: "hex_DecodeString ''6a'' = ([0x6a], None)"
  by code_simp

lemma base64_DecodeString_ag: "base64_DecodeString ''ag=='' = ([0x6a], None)"
  by code_simp

theorem DecodeString_dispatch_witness:
  "DecodeString \<lparr>dec = hex_DecodeString, asciiF = True, hexF = False, b64F = False\<rparr> ''6a''
     = ([CallAscii], ([0x36, 0x61], None))
   \<and> DecodeString \<lparr>dec = asciiDecodeString, asciiF = False, hexF = True, b64F = False\<rparr> ''6a''
     = ([CallHex], ([0x6a], None))
   \<and> DecodeString \<lparr>dec = asciiDecodeString, asciiF = False, hexF = False, b64F = True\<rparr> ''ag==''
     = ([CallBase64], ([0x6a], None))
   \<and> DecodeString \<lparr>dec = hex_DecodeString, asciiF = False, hexF = False, b64F = False\<rparr> ''6a''
     = ([CallDefault], ([0x6a], None))"
  using
    DecodeString_dispatch
      [of "\<lparr>dec = hex_DecodeString, asciiF = True, hexF = False, b64F = False\<rparr>" "''6a''"]
    DecodeString_dispatch
      [of "\<lparr>dec = asciiDecodeString, asciiF = False, hexF = True, b64F = False\<rparr>" "''6a''"]
    DecodeString_dispatch
      [of "\<lparr>dec = asciiDecodeString, asciiF = False, hexF = False, b64F = True\<rparr>" "''ag==''"]
    DecodeString_dispatch
      [of "\<lparr>dec = hex_DecodeString, asciiF = False, hexF = False, b64F = False\<rparr>" "''6a''"]
  by (simp add: hex_DecodeString_6a base64_DecodeString_ag bytes_of_string_def)

text \<open>
  C3. \<open>asciiDecodeString\<close> never fails and returns the bytes of its argument: as many
  bytes as the string has characters, each with the value of its character, so that the
  string is read back from them unchanged; the empty string gives no bytes.
\<close>

theorem asciiDecodeString_identity:
  "asciiDecodeString s = (bytes_of_string s, None)
   \<and> length (fst (asciiDecodeString s)) = length s
   \<and> (\<forall>i < length s. unat (fst (asciiDecodeString s) ! i) = of_char (s ! i))
   \<and> string_of_bytes (fst (asciiDecodeString s)) = s
   \<and> asciiDecodeString [] = ([], None)"
  by (simp add: asciiDecodeString_def string_of_bytes_of_string)
     (simp add: bytes_of_string_def unat_of_char)

theorem asciiDecodeString_identity_witness:
  "asciiDecodeString ''{}'' = ([0x7b, 0x7d], None)
   \<and> string_of_bytes [0x7b, 0x7d] = ''{}''"
proof -
  have b: "bytes_of_string ''{}'' = [0x7b, 0x7d]"
    by (simp add: bytes_of_string_def)
  have "asciiDecodeString ''{}'' = (bytes_of_string ''{}'', None)"
    and "string_of_bytes (fst (asciiDecodeString ''{}'')) = ''{}''"
    using asciiDecodeString_identity [of "''{}''"] by blast+
  then show ?thesis by (simp add: b)
qed

section \<open>Hexadecimal digits\<close>

lemma and15: "(v::byte) AND 0x0f = take_bit 4 v"
  by (simp add: take_bit_eq_mask mask_eq_exp_minus_1)

lemma nibbles: "push_bit 4 (drop_bit 4 v) OR (v AND 0x0f) = (v::byte)"
  unfolding and15 by (rule bit_eqI) (auto simp: bit_simps)

lemma unat_hi_nibble: "unat (drop_bit 4 (v::byte)) < 16"
proof -
  have lt: "unat v < 256" using unsigned_less[of v, where 'a = nat] by simp
  have "unat (drop_bit 4 v) = drop_bit 4 (unat v)" by (rule unat_drop_bit_eq)
  also have "\<dots> = unat v div 16" by (simp add: drop_bit_eq_div)
  finally show ?thesis using lt by simp
qed

lemma unat_lo_nibble: "unat ((v::byte) AND 0x0f) < 16"
proof -
  have "unat (take_bit 4 v) = take_bit 4 (unat v)" by (rule unsigned_take_bit_eq)
  also have "\<dots> = unat v mod 16" by (simp add: take_bit_eq_mod)
  finally show ?thesis unfolding and15 by simp
qed

lemma all_below_16: "(\<forall>n<16. P (n::nat)) = (\<forall>n\<in>set [0..<16]. P n)"
  by auto

lemma reverseHexTable_hextable:
  "\<forall>n<16. reverseHexTable (of_char (hextable ! n)) = of_nat n"
  unfolding all_below_16 by (simp add: upt_rec hextable_def reverseHexTable_def)

lemma reverseHexTable_digit:
  assumes "unat (x::byte) < 16"
  shows "reverseHexTable (of_char (hextable ! unat x)) = x"
  using reverseHexTable_hextable assms by simp

lemma nibble_le: "unat (x::byte) < 16 \<Longrightarrow> \<not> x > 0x0f"
  by (simp add: word_less_nat_alt)

lemma hex_Decode_Encode: "hex_Decode (hex_Encode B) = (B, None)"
proof (induction B)
  case Nil
  show ?case by simp
next
  case (Cons v B)
  have hi: "reverseHexTable (of_char (hextable ! unat (drop_bit 4 v))) = drop_bit 4 v"
    by (rule reverseHexTable_digit [OF unat_hi_nibble])
  have lo: "reverseHexTable (of_char (hextable ! unat (v AND 0x0f))) = v AND 0x0f"
    by (rule reverseHexTable_digit [OF unat_lo_nibble])
  show ?case
    using Cons nibble_le [OF unat_hi_nibble, of v] nibble_le [OF unat_lo_nibble, of v]
    by (simp add: hi lo nibbles Let_def)
qed

text \<open>
  C4. For every byte sequence \<open>B\<close>, \<open>DecodeString\<close> with the flag \<open>hex\<close> alone, applied to
  the hexadecimal encoding of \<open>B\<close>, calls the hex decoder and returns \<open>B\<close> with no error.
\<close>

theorem hex_roundtrip:
  assumes "\<not> asciiF a" and "hexF a" and "\<not> b64F a"
  shows "DecodeString a (hex_EncodeToString B) = ([CallHex], (B, None))"
  using assms unfolding DecodeString_def scanFlags_three
  by (simp add: hex_DecodeString_def hex_EncodeToString_def bytes_of_string_of_bytes
      hex_Decode_Encode)

lemma hex_EncodeToString_007fff: "hex_EncodeToString [0x00, 0x7f, 0xff] = ''007fff''"
  by code_simp

theorem hex_roundtrip_witness:
  "hex_EncodeToString [0x00, 0x7f, 0xff] = ''007fff''
   \<and> DecodeString \<lparr>dec = asciiDecodeString, asciiF = False, hexF = True, b64F = False\<rparr> ''007fff''
       = ([CallHex], ([0x00, 0x7f, 0xff], None))"
  using hex_roundtrip
      [of "\<lparr>dec = asciiDecodeString, asciiF = False, hexF = True, b64F = False\<rparr>"
          "[0x00, 0x7f, 0xff]"]
  by (simp add: hex_EncodeToString_007fff)

section \<open>The commands: what is sent, written and returned\<close>


lemma queryAndPrint_events:
  "Query req \<in> set (fst (queryAndPrint e r)) \<Longrightarrow> req = r"
  by (auto simp: queryAndPrint_def split: sum.splits)






lemma queryAndPrint_queryError:
  "queryClient e req = Inl err \<Longrightarrow> queryAndPrint e req = ([Query req], Return (Some err))"
  by (simp add: queryAndPrint_def)




lemma withPageRequest_events:
  "Query req \<in> set (fst (withPageRequest e flags mk)) \<Longrightarrow> \<exists>pageReq. req = mk pageReq"
  by (auto simp: withPageRequest_def split: sum.splits dest: queryAndPrint_events)

























text \<open>
  C8. In \<open>list-contract-by-code\<close>, an argument that \<open>strconv.ParseUint\<close> rejects, or that it
  reads as 0, makes the command return an error with no query sent and no output; the
  error is "empty code id" when the client context was obtained and the argument reads
  as 0.
\<close>

theorem ListContractByCode_bad_code_id:
  assumes "(\<exists>err. ParseUint e arg0 = Inl err) \<or> ParseUint e arg0 = Inr 0"
  shows "(\<exists>err. GetCmdListContractByCode e flags arg0 = ([], Return (Some err)))
         \<and> (GetClientQueryContext e = None \<and> ParseUint e arg0 = Inr 0 \<longrightarrow>
              GetCmdListContractByCode e flags arg0
                = ([], Return (Some (ErrorString ''empty code id''))))"
  using assms by (auto simp: GetCmdListContractByCode_def split: option.splits sum.splits)

theorem ListContractByCode_bad_code_id_witness:
  "ParseUint exampleEnv ''0'' = Inr 0
   \<and> GetCmdListContractByCode exampleEnv noFlags ''0''
        = ([], Return (Some (ErrorString ''empty code id'')))
   \<and> ParseUint exampleEnv ''x'' = Inl (ErrorString ''invalid syntax'')
   \<and> (\<exists>err. GetCmdListContractByCode exampleEnv noFlags ''x'' = ([], Return (Some err)))"
proof -
  have p0: "ParseUint exampleEnv ''0'' = Inr 0"
    and px: "ParseUint exampleEnv ''x'' = Inl (ErrorString ''invalid syntax'')"
    and c: "GetClientQueryContext exampleEnv = None"
    by (simp_all add: exampleEnv_def)
  have "GetCmdListContractByCode exampleEnv noFlags ''0''
          = ([], Return (Some (ErrorString ''empty code id'')))"
    using ListContractByCode_bad_code_id [of exampleEnv "''0''" noFlags] p0 c by simp
  moreover have "\<exists>err. GetCmdListContractByCode exampleEnv noFlags ''x'' = ([], Return (Some err))"
    using ListContractByCode_bad_code_id [of exampleEnv "''x''" noFlags] px by simp
  ultimately show ?thesis using p0 px by simp
qed

text \<open>
  C9. In \<open>contract-state smart\<close>, an empty query argument, an argument the decoder fails
  on, and an argument whose decoded bytes are not valid JSON each make the command return
  an error with no query sent. Whenever a query is sent, it is the smart query for the
  given address, and its data are the bytes the decoder returned without error for the
  non-empty argument, valid as JSON.
\<close>

theorem Smart_query_checked:
  "(arg1 = []
      \<or> (\<exists>err. snd (snd (DecodeString (RegisterFlags flags (newArgDecoder asciiDecodeString)) arg1))
                  = Some err)
      \<or> \<not> json_Valid e
            (fst (snd (DecodeString (RegisterFlags flags (newArgDecoder asciiDecodeString)) arg1)))
    \<longrightarrow> (\<exists>err. GetCmdGetContractStateSmart e flags arg0 arg1 = ([], Return (Some err))))
   \<and> (Query req \<in> set (fst (GetCmdGetContractStateSmart e flags arg0 arg1))
    \<longrightarrow> (\<exists>queryData. req = QuerySmartContractStateRequest arg0 queryData
          \<and> snd (DecodeString (RegisterFlags flags (newArgDecoder asciiDecodeString)) arg1)
              = (queryData, None)
          \<and> json_Valid e queryData \<and> arg1 \<noteq> []))"
  by (auto simp: GetCmdGetContractStateSmart_def Let_def
      split: option.splits prod.splits if_splits dest: queryAndPrint_events)

lemma Smart_example_brace:
  "GetCmdGetContractStateSmart exampleEnv noFlags ''addr'' ''{}''
     = ([Query (QuerySmartContractStateRequest ''addr'' [0x7b, 0x7d]), Print ''response''],
        Return None)"
  by (simp add: GetCmdGetContractStateSmart_def exampleEnv_def noFlags_def RegisterFlags_def
      GetBool_or_false_def addPaginationFlags_def FlagPageKey_def FlagLimit_def
      FlagReverse_def newArgDecoder_def DecodeString_def asciiDecodeString_def
      bytes_of_string_def queryAndPrint_def)

theorem Smart_query_checked_witness:
  "(\<exists>err. GetCmdGetContractStateSmart exampleEnv noFlags ''addr'' [] = ([], Return (Some err)))
   \<and> Query (QuerySmartContractStateRequest ''addr'' [0x7b, 0x7d])
        \<in> set (fst (GetCmdGetContractStateSmart exampleEnv noFlags ''addr'' ''{}''))
   \<and> json_Valid exampleEnv [0x7b, 0x7d]"
proof -
  have q: "Query (QuerySmartContractStateRequest ''addr'' [0x7b, 0x7d])
        \<in> set (fst (GetCmdGetContractStateSmart exampleEnv noFlags ''addr'' ''{}''))"
    by (simp add: Smart_example_brace)
  have "\<exists>err. GetCmdGetContractStateSmart exampleEnv noFlags ''addr'' [] = ([], Return (Some err))"
    using Smart_query_checked [of "[]" noFlags exampleEnv "''addr''"] by simp
  moreover have "json_Valid exampleEnv [0x7b, 0x7d]"
    using q Smart_query_checked
      [of "''{}''" noFlags exampleEnv "''addr''"
          "QuerySmartContractStateRequest ''addr'' [0x7b, 0x7d]"]
    by auto
  ultimately show ?thesis using q by simp
qed

text \<open>
  C10. In \<open>code\<close>, when the query succeeds and the returned data are empty, the command
  returns the error "contract not found" after the query, with nothing printed and no
  file written. Whenever the file is written, it is the file named by the second
  argument, and what is written are the non-empty data the node returned.
\<close>

theorem QueryCode_empty_data:
  "(GetClientQueryContext e = None \<and> ParseUint e arg0 = Inr codeID
      \<and> Code e codeID = Inr res \<and> Data res = []
    \<longrightarrow> GetCmdQueryCode e arg0 arg1
          = ([Query (QueryCodeRequest codeID)],
             Return (Some (ErrorString ''contract not found''))))
   \<and> (FileWrite name data \<in> set (fst (GetCmdQueryCode e arg0 arg1))
    \<longrightarrow> name = arg1 \<and> data \<noteq> []
        \<and> (\<exists>codeID res. GetClientQueryContext e = None \<and> ParseUint e arg0 = Inr codeID
              \<and> Code e codeID = Inr res \<and> Data res = data))"
  by (auto simp: GetCmdQueryCode_def split: option.splits sum.splits if_splits)

lemma QueryCode_example_7:
  "GetCmdQueryCode exampleEnv ''7'' ''out.wasm''
     = ([Query (QueryCodeRequest 7),
         Printf (''Downloading wasm code to out.wasm'' @ [CHR 0x0A]),
         FileWrite ''out.wasm'' [0x00, 0x61, 0x73, 0x6d]],
        Return None)"
  by (simp add: GetCmdQueryCode_def exampleEnv_def)

theorem QueryCode_empty_data_witness:
  "GetCmdQueryCode exampleEnv ''0'' ''out.wasm''
     = ([Query (QueryCodeRequest 0)], Return (Some (ErrorString ''contract not found'')))
   \<and> FileWrite ''out.wasm'' [0x00, 0x61, 0x73, 0x6d]
        \<in> set (fst (GetCmdQueryCode exampleEnv ''7'' ''out.wasm''))
   \<and> (\<exists>codeID res. ParseUint exampleEnv ''7'' = Inr codeID \<and> Code exampleEnv codeID = Inr res
         \<and> Data res = [0x00, 0x61, 0x73, 0x6d])"
proof -
  have w: "FileWrite ''out.wasm'' [0x00, 0x61, 0x73, 0x6d]
        \<in> set (fst (GetCmdQueryCode exampleEnv ''7'' ''out.wasm''))"
    by (simp add: QueryCode_example_7)
  have h: "GetClientQueryContext exampleEnv = None \<and> ParseUint exampleEnv ''0'' = Inr 0
      \<and> Code exampleEnv 0 = Inr \<lparr>Data = []\<rparr> \<and> Data \<lparr>Data = []\<rparr> = []"
    by (simp add: exampleEnv_def)
  have "GetCmdQueryCode exampleEnv ''0'' ''out.wasm''
     = ([Query (QueryCodeRequest 0)], Return (Some (ErrorString ''contract not found'')))"
    using h QueryCode_empty_data [of exampleEnv "''0''" 0 "\<lparr>Data = []\<rparr>"] by blast
  moreover have "\<exists>codeID res. ParseUint exampleEnv ''7'' = Inr codeID
      \<and> Code exampleEnv codeID = Inr res \<and> Data res = [0x00, 0x61, 0x73, 0x6d]"
    using w QueryCode_empty_data
      [of exampleEnv "''7''" _ _ "''out.wasm''" "''out.wasm''" "[0x00, 0x61, 0x73, 0x6d]"]
    by blast
  ultimately show ?thesis using w by simp
qed

section \<open>Base64: the alphabet and the 6-bit groups\<close>

lemma all_below_64: "(\<forall>n<64. P (n::nat)) = (\<forall>n\<in>set [0..<64]. P n)"
  by auto

lemma decodeMap_encodeStd:
  "\<forall>n<64. decodeMap (of_char (encodeStd ! n)) = of_nat n"
  unfolding all_below_64 by (simp add: upt_rec decodeMap_def encodeStd_def bytes_of_string_def)

lemma and63: "(v::64 word) AND 0x3F = take_bit 6 v"
  by (simp add: take_bit_eq_mask mask_eq_exp_minus_1)

lemma unat_sextet: "unat (take_bit 6 (v::64 word)) < 64"
proof -
  have "unat (take_bit 6 v) = take_bit 6 (unat v)" by (rule unsigned_take_bit_eq)
  also have "\<dots> = unat v mod 64" by (simp add: take_bit_eq_mod)
  finally show ?thesis by simp
qed

lemma decodeMap_encode: "decodeMap (encode (take_bit 6 v)) = ucast (take_bit 6 v)"
  using decodeMap_encodeStd unat_sextet [of v] by (simp add: encode_def)

lemma ucast_sextet_ne: "(ucast (take_bit 6 (v::64 word)) :: byte) \<noteq> 0xff"
proof
  assume "(ucast (take_bit 6 v) :: byte) = 0xff"
  then have "bit (ucast (take_bit 6 v) :: byte) 7" by simp
  then show False by (simp add: bit_simps)
qed

lemma decodeMap_encode_ne: "decodeMap (encode (take_bit 6 v)) \<noteq> 0xff"
  by (simp add: decodeMap_encode ucast_sextet_ne)

lemma byte_bit: "bit (b::byte) m \<Longrightarrow> m < 8"
  using bit_imp_le_length [of b m] by simp

lemma sextets:
  assumes "take_bit 24 v = (v :: 64 word)"
  shows "push_bit 18 (ucast (ucast (take_bit 6 (drop_bit 18 v)) :: byte))
           OR push_bit 12 (ucast (ucast (take_bit 6 (drop_bit 12 v)) :: byte))
           OR push_bit 6 (ucast (ucast (take_bit 6 (drop_bit 6 v)) :: byte))
           OR ucast (ucast (take_bit 6 v) :: byte) = v"
proof (rule bit_eqI)
  fix n
  assume "possible_bit TYPE(64 word) n"
  have v: "bit v n \<Longrightarrow> n < 24" using assms by (metis bit_take_bit_iff)
  consider "n < 6" | "6 \<le> n \<and> n < 12" | "12 \<le> n \<and> n < 18" | "18 \<le> n \<and> n < 24" | "24 \<le> n"
    by linarith
  then show "bit (push_bit 18 (ucast (ucast (take_bit 6 (drop_bit 18 v)) :: byte))
           OR push_bit 12 (ucast (ucast (take_bit 6 (drop_bit 12 v)) :: byte))
           OR push_bit 6 (ucast (ucast (take_bit 6 (drop_bit 6 v)) :: byte))
           OR (ucast (ucast (take_bit 6 v) :: byte) :: 64 word)) n = bit v n"
  proof cases
    case 1
    then show ?thesis by (auto simp: bit_simps)
  next
    case 2
    then show ?thesis by (auto simp: bit_simps)
  next
    case 3
    then show ?thesis by (auto simp: bit_simps)
  next
    case 4
    then show ?thesis by (auto simp: bit_simps)
  next
    case 5
    then show ?thesis using v by (auto simp: bit_simps)
  qed
qed

lemma three_bytes:
  fixes s0 s1 s2 :: byte
  defines "v \<equiv> push_bit 16 (ucast s0) OR push_bit 8 (ucast s1) OR ucast s2 :: 64 word"
  shows "take_bit 24 v = v" "ucast (drop_bit 16 v) = s0" "ucast (drop_bit 8 v) = s1" "ucast v = s2"
  unfolding v_def by (rule bit_eqI; auto simp: bit_simps dest: byte_bit)+

section \<open>Base64: decoding what the encoder wrote\<close>

declare decodeLoop.simps [simp del]

lemma decodeLoop_Nil: "decodeLoop len [] si = ([], None)"
  by (simp add: decodeLoop.simps)

lemma decodeLoop_Cons:
  "decodeLoop len (c # src) si =
     (case decodeQuantum len (c # src) si of
        (rest, nsi, out, err) \<Rightarrow>
          if err \<noteq> None then (out, err)
          else (case decodeLoop len rest nsi of (dst, err') \<Rightarrow> (out @ dst, err')))"
  by (subst decodeLoop.simps) simp

lemma quantumLoop_ge4: "4 \<le> j \<Longrightarrow> quantumLoop len src si j dbuf = QBreak src si 4 dbuf None"
  by (cases src) simp_all

lemma quantumLoop_digits4:
  assumes "decodeMap c0 \<noteq> 0xff" "decodeMap c1 \<noteq> 0xff" "decodeMap c2 \<noteq> 0xff" "decodeMap c3 \<noteq> 0xff"
  shows "quantumLoop len (c0 # c1 # c2 # c3 # rest) si 0 [0, 0, 0, 0]
           = QBreak rest (si + 4) 4 [decodeMap c0, decodeMap c1, decodeMap c2, decodeMap c3] None"
proof -
  have "quantumLoop len (c0 # c1 # c2 # c3 # rest) si 0 [0, 0, 0, 0]
          = quantumLoop len rest (si + 4) 4 [decodeMap c0, decodeMap c1, decodeMap c2, decodeMap c3]"
    using assms by (simp add: eval_nat_numeral add.commute)
  then show ?thesis by (simp add: quantumLoop_ge4)
qed

lemma decodeQuantum_QBreak:
  assumes "quantumLoop len src si 0 [0, 0, 0, 0] = QBreak rest nsi dlen [d0, d1, d2, d3] err"
    and "push_bit 18 (ucast d0) OR push_bit 12 (ucast d1) OR push_bit 6 (ucast d2) OR ucast d3
           = (val :: 64 word)"
  shows "decodeQuantum len src si
           = (rest, nsi, take (dlen - 1) [ucast (drop_bit 16 val), ucast (drop_bit 8 val), ucast val],
              err)"
  using assms(1) unfolding assms(2) [symmetric]
  by (simp add: decodeQuantum_def strict_def Let_def)

lemma decodeQuantum_group:
  fixes s0 s1 s2 :: byte
  defines "v \<equiv> push_bit 16 (ucast s0) OR push_bit 8 (ucast s1) OR ucast s2 :: 64 word"
  shows "decodeQuantum len (encode (take_bit 6 (drop_bit 18 v)) # encode (take_bit 6 (drop_bit 12 v))
            # encode (take_bit 6 (drop_bit 6 v)) # encode (take_bit 6 v) # rest) si
         = (rest, si + 4, [s0, s1, s2], None)"
proof -
  have t: "take_bit 24 v = v" and b: "ucast (drop_bit 16 v) = s0" "ucast (drop_bit 8 v) = s1" "ucast v = s2"
    unfolding v_def by (rule three_bytes)+
  have q: "quantumLoop len (encode (take_bit 6 (drop_bit 18 v)) # encode (take_bit 6 (drop_bit 12 v))
            # encode (take_bit 6 (drop_bit 6 v)) # encode (take_bit 6 v) # rest) si 0 [0, 0, 0, 0]
         = QBreak rest (si + 4) 4 [ucast (take_bit 6 (drop_bit 18 v)), ucast (take_bit 6 (drop_bit 12 v)),
             ucast (take_bit 6 (drop_bit 6 v)), ucast (take_bit 6 v)] None"
    using quantumLoop_digits4 [OF decodeMap_encode_ne decodeMap_encode_ne decodeMap_encode_ne
        decodeMap_encode_ne]
    by (simp only: decodeMap_encode)
  show ?thesis
    using decodeQuantum_QBreak [OF q sextets [OF t]] by (simp add: b)
qed

lemma two_bytes:
  fixes s0 s1 :: byte
  defines "v \<equiv> push_bit 16 (ucast s0) OR push_bit 8 (ucast s1) :: 64 word"
  shows "take_bit 24 v = v" "ucast (drop_bit 16 v) = s0" "ucast (drop_bit 8 v) = s1"
    "take_bit 6 v = 0"
  unfolding v_def by (rule bit_eqI; auto simp: bit_simps dest: byte_bit)+

lemma one_byte:
  fixes s0 :: byte
  defines "v \<equiv> push_bit 16 (ucast s0) :: 64 word"
  shows "take_bit 24 v = v" "ucast (drop_bit 16 v) = s0" "take_bit 6 v = 0"
    "take_bit 6 (drop_bit 6 v) = 0"
  unfolding v_def by (rule bit_eqI; auto simp: bit_simps dest: byte_bit)+

lemma upd4:
  "[a, b, c, d][0 := x] = [x, b, c, d]" "[a, b, c, d][1 := x] = [a, x, c, d]"
  "[a, b, c, d][2 := x] = [a, b, x, d]" "[a, b, c, d][3 := x] = [a, b, c, x]"
  by (simp_all add: eval_nat_numeral)

lemma pad_eq: "decodeMap 0x3D = 0xff" "(0x3D :: byte) \<noteq> 0x0A" "(0x3D :: byte) \<noteq> 0x0D"
    "uint (0x3D :: byte) = padChar"
  by (simp_all add: decodeMap_def encodeStd_def bytes_of_string_def padChar_def StdPadding_def)

lemma quantumLoop_digits3_pad_gen:
  assumes "decodeMap c0 \<noteq> 0xff" "decodeMap c1 \<noteq> 0xff" "decodeMap c2 \<noteq> 0xff"
    and "decodeMap p = 0xff" "p \<noteq> 0x0A" "p \<noteq> 0x0D" "uint p = padChar"
  shows "quantumLoop len [c0, c1, c2, p] si 0 [0, 0, 0, 0]
           = QBreak [] (si + 4) 3 [decodeMap c0, decodeMap c1, decodeMap c2, 0] None"
  using assms by (simp add: upd4 add.commute)

lemma quantumLoop_digits2_pad_gen:
  assumes "decodeMap c0 \<noteq> 0xff" "decodeMap c1 \<noteq> 0xff"
    and "decodeMap p = 0xff" "p \<noteq> 0x0A" "p \<noteq> 0x0D" "uint p = padChar"
  shows "quantumLoop len [c0, c1, p, p] si 0 [0, 0, 0, 0]
           = QBreak [] (si + 4) 2 [decodeMap c0, decodeMap c1, 0, 0] None"
  using assms by (simp add: upd4 add.commute)

lemmas quantumLoop_digits3_pad = quantumLoop_digits3_pad_gen [OF _ _ _ pad_eq]
lemmas quantumLoop_digits2_pad = quantumLoop_digits2_pad_gen [OF _ _ pad_eq]

lemma decodeQuantum_pad1:
  fixes s0 s1 :: byte
  defines "v \<equiv> push_bit 16 (ucast s0) OR push_bit 8 (ucast s1) :: 64 word"
  shows "decodeQuantum len [encode (take_bit 6 (drop_bit 18 v)), encode (take_bit 6 (drop_bit 12 v)),
            encode (take_bit 6 (drop_bit 6 v)), 0x3D] si
         = ([], si + 4, [s0, s1], None)"
proof -
  have t: "take_bit 24 v = v" and b: "ucast (drop_bit 16 v) = s0" "ucast (drop_bit 8 v) = s1"
    and z: "take_bit 6 v = 0"
    unfolding v_def by (rule two_bytes)+
  have q: "quantumLoop len [encode (take_bit 6 (drop_bit 18 v)), encode (take_bit 6 (drop_bit 12 v)),
            encode (take_bit 6 (drop_bit 6 v)), 0x3D] si 0 [0, 0, 0, 0]
         = QBreak [] (si + 4) 3 [ucast (take_bit 6 (drop_bit 18 v)), ucast (take_bit 6 (drop_bit 12 v)),
             ucast (take_bit 6 (drop_bit 6 v)), ucast (take_bit 6 v)] None"
    using quantumLoop_digits3_pad [OF decodeMap_encode_ne decodeMap_encode_ne decodeMap_encode_ne]
    by (simp only: decodeMap_encode z) simp
  show ?thesis
    using decodeQuantum_QBreak [OF q sextets [OF t]] by (simp add: b)
qed

lemma decodeQuantum_pad2:
  fixes s0 :: byte
  defines "v \<equiv> push_bit 16 (ucast s0) :: 64 word"
  shows "decodeQuantum len [encode (take_bit 6 (drop_bit 18 v)), encode (take_bit 6 (drop_bit 12 v)),
            0x3D, 0x3D] si
         = ([], si + 4, [s0], None)"
proof -
  have t: "take_bit 24 v = v" and b: "ucast (drop_bit 16 v) = s0"
    and z: "take_bit 6 v = 0" "take_bit 6 (drop_bit 6 v) = 0"
    unfolding v_def by (rule one_byte)+
  have q: "quantumLoop len [encode (take_bit 6 (drop_bit 18 v)), encode (take_bit 6 (drop_bit 12 v)),
            0x3D, 0x3D] si 0 [0, 0, 0, 0]
         = QBreak [] (si + 4) 2 [ucast (take_bit 6 (drop_bit 18 v)), ucast (take_bit 6 (drop_bit 12 v)),
             ucast (take_bit 6 (drop_bit 6 v)), ucast (take_bit 6 v)] None"
    using quantumLoop_digits2_pad [OF decodeMap_encode_ne decodeMap_encode_ne]
    by (simp only: decodeMap_encode z) simp
  show ?thesis
    using decodeQuantum_QBreak [OF q sextets [OF t]] by (simp add: b)
qed

lemma decodeLoop_Encode: "decodeLoop len (base64_Encode B) si = (B, None)"
proof (induction B arbitrary: si rule: base64_Encode.induct)
  case (1 s0 s1 s2 src)
  define v where "v = (push_bit 16 (ucast s0) OR push_bit 8 (ucast s1) OR ucast s2 :: 64 word)"
  have e: "base64_Encode (s0 # s1 # s2 # src)
             = encode (take_bit 6 (drop_bit 18 v)) # encode (take_bit 6 (drop_bit 12 v))
                 # encode (take_bit 6 (drop_bit 6 v)) # encode (take_bit 6 v) # base64_Encode src"
    by (simp add: v_def Let_def and63)
  have q: "decodeQuantum len (encode (take_bit 6 (drop_bit 18 v)) # encode (take_bit 6 (drop_bit 12 v))
                 # encode (take_bit 6 (drop_bit 6 v)) # encode (take_bit 6 v) # base64_Encode src) si
             = (base64_Encode src, si + 4, [s0, s1, s2], None)"
    unfolding v_def by (rule decodeQuantum_group)
  show ?case
    unfolding e by (subst decodeLoop_Cons) (simp add: q 1)
next
  case (2 s0 s1)
  define v where "v = (push_bit 16 (ucast s0) OR push_bit 8 (ucast s1) :: 64 word)"
  have e: "base64_Encode [s0, s1]
             = [encode (take_bit 6 (drop_bit 18 v)), encode (take_bit 6 (drop_bit 12 v)),
                encode (take_bit 6 (drop_bit 6 v)), 0x3D]"
    by (simp add: v_def Let_def and63)
  have q: "decodeQuantum len [encode (take_bit 6 (drop_bit 18 v)), encode (take_bit 6 (drop_bit 12 v)),
                encode (take_bit 6 (drop_bit 6 v)), 0x3D] si
             = ([], si + 4, [s0, s1], None)"
    unfolding v_def by (rule decodeQuantum_pad1)
  show ?case
    unfolding e by (subst decodeLoop_Cons) (simp add: q decodeLoop_Nil)
next
  case (3 s0)
  define v where "v = (push_bit 16 (ucast s0) :: 64 word)"
  have e: "base64_Encode [s0]
             = [encode (take_bit 6 (drop_bit 18 v)), encode (take_bit 6 (drop_bit 12 v)), 0x3D, 0x3D]"
    by (simp add: v_def Let_def and63)
  have q: "decodeQuantum len [encode (take_bit 6 (drop_bit 18 v)), encode (take_bit 6 (drop_bit 12 v)),
                0x3D, 0x3D] si
             = ([], si + 4, [s0], None)"
    unfolding v_def by (rule decodeQuantum_pad2)
  show ?case
    unfolding e by (subst decodeLoop_Cons) (simp add: q decodeLoop_Nil)
next
  case 4
  show ?case by (simp add: decodeLoop_Nil)
qed

text \<open>
  C5. For every byte sequence \<open>B\<close>, \<open>DecodeString\<close> with the flag \<open>b64\<close> alone, applied to
  the standard base64 encoding of \<open>B\<close>, calls the base64 decoder and returns \<open>B\<close> with no
  error.
\<close>

theorem base64_roundtrip:
  assumes "\<not> asciiF a" and "\<not> hexF a" and "b64F a"
  shows "DecodeString a (base64_EncodeToString B) = ([CallBase64], (B, None))"
  using assms unfolding DecodeString_def scanFlags_three
  by (simp add: base64_DecodeString_def base64_EncodeToString_def bytes_of_string_of_bytes
      decodeLoop_Encode)

lemma base64_EncodeToString_sure: "base64_EncodeToString [0x73, 0x75, 0x72, 0x65] = ''c3VyZQ==''"
  by code_simp

theorem base64_roundtrip_witness:
  "base64_EncodeToString [0x73, 0x75, 0x72, 0x65] = ''c3VyZQ==''
   \<and> DecodeString \<lparr>dec = asciiDecodeString, asciiF = False, hexF = False, b64F = True\<rparr> ''c3VyZQ==''
       = ([CallBase64], ([0x73, 0x75, 0x72, 0x65], None))"
  using base64_roundtrip
      [of "\<lparr>dec = asciiDecodeString, asciiF = False, hexF = False, b64F = True\<rparr>"
          "[0x73, 0x75, 0x72, 0x65]"]
  by (simp add: base64_EncodeToString_sure)

section \<open>Malformed input: hexadecimal\<close>

lemma hexDigits_iff:
  "b \<in> hexDigits \<longleftrightarrow> (0x30 \<le> b \<and> b \<le> 0x39) \<or> (0x41 \<le> b \<and> b \<le> 0x46) \<or> (0x61 \<le> b \<and> b \<le> 0x66)"
proof -
  have "inj (unat :: byte \<Rightarrow> nat)"
    by (rule injI) (simp add: word_unat_eq_iff)
  then have "b \<in> hexDigits \<longleftrightarrow> unat b \<in> unat ` hexDigits"
    by (simp add: inj_image_mem_iff)
  also have "\<dots> \<longleftrightarrow> (48 \<le> unat b \<and> unat b \<le> 57) \<or> (65 \<le> unat b \<and> unat b \<le> 70) \<or> (97 \<le> unat b \<and> unat b \<le> 102)"
    unfolding hexDigits_def bytes_of_string_def by simp presburger
  finally show ?thesis by (simp add: word_le_nat_alt)
qed

lemma reverseHexTable_gt_iff: "reverseHexTable b > 0x0f \<longleftrightarrow> b \<notin> hexDigits"
  unfolding hexDigits_iff reverseHexTable_def
  by (auto simp: word_le_nat_alt word_less_nat_alt unat_sub unat_word_ariths)

lemma hex_Decode_None: "snd (hex_Decode src) = None \<Longrightarrow> validHex src"
proof (induction src rule: hex_Decode.induct)
  case (1 p q src)
  then show ?case
    by (auto simp: validHex_def Let_def reverseHexTable_gt_iff split: if_splits prod.splits)
next
  case (2 p)
  then show ?case by (simp split: if_splits)
next
  case 3
  then show ?case by (simp add: validHex_def)
qed

lemma hex_Decode_error:
  "snd (hex_Decode src) = Some err \<Longrightarrow> err = ErrLength \<or> (\<exists>b. err = InvalidByteError b)"
  by (induction src arbitrary: err rule: hex_Decode.induct)
     (auto simp: Let_def split: if_splits prod.splits)

lemma validHex_Decode: "validHex src \<Longrightarrow> snd (hex_Decode src) = None"
  by (induction src rule: hex_Decode.induct)
     (auto simp: validHex_def Let_def reverseHexTable_gt_iff split: if_splits prod.splits)

section \<open>Malformed input: base64\<close>

lemma decodeMap_ne_iff: "decodeMap c \<noteq> 0xff \<longleftrightarrow> c \<in> alphabetStd"
  by (simp add: decodeMap_def alphabetStd_def encodeStd_def bytes_of_string_def)

lemma alphabetStd_plain:
  "c \<in> alphabetStd \<Longrightarrow> c \<noteq> 0x0A \<and> c \<noteq> 0x0D \<and> c \<noteq> 0x3D"
  by (auto simp: alphabetStd_def encodeStd_def bytes_of_string_def)

lemma uint_padChar: "uint (c :: byte) = padChar \<longleftrightarrow> c = 0x3D"
proof -
  have "uint c = uint (0x3D :: byte) \<longleftrightarrow> c = 0x3D" by (simp only: word_uint_eq_iff)
  then show ?thesis by (simp add: padChar_def StdPadding_def)
qed

lemma withoutNewlines_simps:
  "withoutNewlines [] = []"
  "withoutNewlines (c # src) = (if c = 0x0A \<or> c = 0x0D then withoutNewlines src else c # withoutNewlines src)"
  by (simp_all add: withoutNewlines_def)

lemma skipNewlines_strip:
  "skipNewlines src si = (r, si') \<Longrightarrow>
     withoutNewlines src = withoutNewlines r \<and> (r = [] \<or> withoutNewlines r = hd r # withoutNewlines (tl r))"
  by (induction src si rule: skipNewlines.induct) (auto simp: withoutNewlines_simps split: if_splits)

lemma quantumShape_digit:
  "c \<in> alphabetStd \<Longrightarrow> quantumShape (Suc j) dlen stripped rest \<Longrightarrow> quantumShape j dlen (c # stripped) rest"
  unfolding quantumShape_def
  apply (erule exE)
  subgoal for ds by (rule exI [of _ "c # ds"]) auto
  done

lemma quantumLoop_QBreak:
  "quantumLoop len src si j dbuf = QBreak rest nsi dlen dbuf' None \<Longrightarrow> j \<le> 4 \<Longrightarrow>
     quantumShape j dlen (withoutNewlines src) rest"
proof (induction len src si j dbuf rule: quantumLoop.induct)
  case (1 len si j dbuf)
  then show ?case
    by (auto simp: quantumShape_def withoutNewlines_simps padChar_def StdPadding_def NoPadding_def
        split: if_splits)
next
  case (2 len c src si j dbuf)
  show ?case
  proof (cases "4 \<le> j")
    case True
    with 2 show ?thesis by (auto simp: quantumShape_def)
  next
    case j4: False
    show ?thesis
    proof (cases "decodeMap c \<noteq> 0xff")
      case True
      then have c: "c \<in> alphabetStd" by (simp add: decodeMap_ne_iff)
      have "quantumShape (Suc j) dlen (withoutNewlines src) rest"
        using 2 j4 True by simp
      then show ?thesis
        using c alphabetStd_plain [OF c] by (simp add: withoutNewlines_simps quantumShape_digit)
    next
      case nd: False
      show ?thesis
      proof (cases "c = 0x0A \<or> c = 0x0D")
        case True
        then show ?thesis using 2 j4 nd by (auto simp: withoutNewlines_simps)
      next
        case nn: False
        have pad: "c = 0x3D" and j23: "j = 2 \<or> j = 3"
          using 2(3) j4 nd nn by (auto simp: uint_padChar split: if_splits)
        show ?thesis
        proof (cases "j = 2")
          case True
          then show ?thesis
            using 2(3) j4 nd nn pad
            by (auto simp: quantumShape_def withoutNewlines_simps uint_padChar
                split: if_splits prod.splits list.splits dest!: skipNewlines_strip)
        next
          case False
          then have "j = 3" using j23 by simp
          then show ?thesis
            using 2(3) j4 nd nn pad
            by (auto simp: quantumShape_def withoutNewlines_simps uint_padChar
                split: if_splits prod.splits list.splits dest!: skipNewlines_strip)
        qed
      qed
    qed
  qed
qed

lemma quantumLoop_QReturn:
  "quantumLoop len src si j dbuf = QReturn rest nsi n None \<Longrightarrow>
     j = 0 \<and> withoutNewlines src = [] \<and> rest = []"
  by (induction len src si j dbuf rule: quantumLoop.induct)
     (auto simp: withoutNewlines_simps split: if_splits prod.splits list.splits)

lemma decodeQuantum_None:
  assumes "decodeQuantum len src si = (rest, nsi, out, None)"
  shows "(withoutNewlines src = [] \<and> rest = [])
         \<or> (\<exists>dlen. quantumShape 0 dlen (withoutNewlines src) rest)"
  using assms quantumLoop_QBreak [of len src si 0 "[0, 0, 0, 0]" rest nsi]
    quantumLoop_QReturn [of len src si 0 "[0, 0, 0, 0]" rest nsi]
  by (auto simp: decodeQuantum_def Let_def strict_def split: quantum_loop.splits if_splits)

lemma validStdBase64_group:
  assumes "set ds \<subseteq> alphabetStd" "length ds = 4" "validStdBase64 rest"
  shows "validStdBase64 (ds @ rest)"
proof -
  obtain a b c d where ds: "ds = [a, b, c, d]"
    using assms(2) by (auto simp: length_Suc_conv eval_nat_numeral)
  show ?thesis using assms(1,3) unfolding ds by (cases rest) auto
qed

lemma validStdBase64_pad1:
  assumes "set ds \<subseteq> alphabetStd" "length ds = 3"
  shows "validStdBase64 (ds @ [0x3D])"
proof -
  obtain a b c where ds: "ds = [a, b, c]"
    using assms(2) by (auto simp: length_Suc_conv eval_nat_numeral)
  show ?thesis using assms(1) unfolding ds by simp
qed

lemma validStdBase64_pad2:
  assumes "set ds \<subseteq> alphabetStd" "length ds = 2"
  shows "validStdBase64 (ds @ [0x3D, 0x3D])"
proof -
  obtain a b where ds: "ds = [a, b]"
    using assms(2) by (auto simp: length_Suc_conv eval_nat_numeral)
  show ?thesis using assms(1) unfolding ds by simp
qed

lemma quantumShape_valid:
  assumes "quantumShape 0 dlen stripped rest" "validStdBase64 (withoutNewlines rest)"
  shows "validStdBase64 stripped"
  using assms unfolding quantumShape_def
  by (auto simp: validStdBase64_group validStdBase64_pad1 validStdBase64_pad2)

lemma decodeLoop_None:
  "snd (decodeLoop len src si) = None \<Longrightarrow> validStdBase64 (withoutNewlines src)"
proof (induction len src si rule: decodeLoop.induct)
  case (1 len src si)
  show ?case
  proof (cases "src = []")
    case True
    then show ?thesis by (simp add: withoutNewlines_def)
  next
    case False
    obtain rest nsi out err where dq: "decodeQuantum len src si = (rest, nsi, out, err)"
      by (cases "decodeQuantum len src si") auto
    have err: "err = None"
      using "1.prems" False dq by (subst (asm) decodeLoop.simps) (auto split: prod.splits if_splits)
    have "snd (decodeLoop len rest nsi) = None"
      using "1.prems" False dq err by (subst (asm) decodeLoop.simps) (auto split: prod.splits if_splits)
    then have v: "validStdBase64 (withoutNewlines rest)"
      using "1.IH" [OF False dq [symmetric] refl refl] err by simp
    from decodeQuantum_None [OF dq [unfolded err]] show ?thesis
    proof
      assume "withoutNewlines src = [] \<and> rest = []"
      then show ?thesis by simp
    next
      assume "\<exists>dlen. quantumShape 0 dlen (withoutNewlines src) rest"
      then show ?thesis using v by (auto intro: quantumShape_valid)
    qed
  qed
qed

lemma skipNewlines_all:
  "withoutNewlines src = [] \<Longrightarrow> \<exists>si'. skipNewlines src si = ([], si')"
  by (induction src si rule: skipNewlines.induct) (auto simp: withoutNewlines_simps split: if_splits)

lemma skipNewlines_first:
  "withoutNewlines src = x # t \<Longrightarrow>
     \<exists>r si'. skipNewlines src si = (x # r, si') \<and> withoutNewlines r = t"
  by (induction src si rule: skipNewlines.induct) (auto simp: withoutNewlines_simps split: if_splits)

lemma quantumLoop_empty:
  "withoutNewlines src = [] \<Longrightarrow> \<exists>nsi. quantumLoop len src si 0 dbuf = QReturn [] nsi 0 None"
proof (induction src arbitrary: si)
  case Nil
  then show ?case by simp
next
  case (Cons c src)
  then have nl: "c = 0x0A \<or> c = 0x0D" and s: "withoutNewlines src = []"
    by (auto simp: withoutNewlines_simps split: if_splits)
  have "decodeMap c = 0xff" using nl alphabetStd_plain [of c] decodeMap_ne_iff [of c] by auto
  then show ?case using nl Cons.IH [OF s] by auto
qed

lemma quantumLoop_full:
  "withoutNewlines src = ds @ t \<Longrightarrow> set ds \<subseteq> alphabetStd \<Longrightarrow> j + length ds = 4 \<Longrightarrow>
     \<exists>rest nsi dbuf'. quantumLoop len src si j dbuf = QBreak rest nsi 4 dbuf' None
        \<and> withoutNewlines rest = t"
proof (induction src arbitrary: si j dbuf ds)
  case Nil
  then show ?case by (simp add: withoutNewlines_simps)
next
  case (Cons c src)
  show ?case
  proof (cases "4 \<le> j")
    case True
    then have "ds = []" using Cons.prems(3) by (cases ds) auto
    then show ?thesis using True Cons.prems(1) by simp
  next
    case j4: False
    then obtain d ds' where ds: "ds = d # ds'" using Cons.prems(3) by (cases ds) auto
    show ?thesis
    proof (cases "c = 0x0A \<or> c = 0x0D")
      case True
      then have m: "decodeMap c = 0xff"
        using alphabetStd_plain [of c] decodeMap_ne_iff [of c] by auto
      have "withoutNewlines src = ds @ t" using True Cons.prems(1) by (auto simp: withoutNewlines_simps)
      from Cons.IH [OF this Cons.prems(2,3), of "si + 1" dbuf] show ?thesis
        using True m j4 by auto
    next
      case False
      then have cd: "c = d" and s: "withoutNewlines src = ds' @ t"
        using Cons.prems(1) ds by (auto simp: withoutNewlines_simps)
      have m: "decodeMap c \<noteq> 0xff" using Cons.prems(2) ds cd by (simp add: decodeMap_ne_iff)
      have "Suc j + length ds' = 4" using Cons.prems(3) ds by simp
      from Cons.IH [OF s _ this, of "si + 1" "dbuf[j := decodeMap c]"] show ?thesis
        using m j4 Cons.prems(2) ds by auto
    qed
  qed
qed

lemma quantumLoop_pad1:
  "withoutNewlines src = ds @ [0x3D] \<Longrightarrow> set ds \<subseteq> alphabetStd \<Longrightarrow> j + length ds = 3 \<Longrightarrow>
     \<exists>nsi dbuf'. quantumLoop len src si j dbuf = QBreak [] nsi 3 dbuf' None"
proof (induction src arbitrary: si j dbuf ds)
  case Nil
  then show ?case by (simp add: withoutNewlines_simps)
next
  case (Cons c src)
  have j4: "\<not> 4 \<le> j" using Cons.prems(3) by simp
  show ?case
  proof (cases "c = 0x0A \<or> c = 0x0D")
    case True
    then have m: "decodeMap c = 0xff"
      using alphabetStd_plain [of c] decodeMap_ne_iff [of c] by auto
    have "withoutNewlines src = ds @ [0x3D]"
      using True Cons.prems(1) by (auto simp: withoutNewlines_simps)
    from Cons.IH [OF this Cons.prems(2,3), of "si + 1" dbuf] show ?thesis
      using True m j4 by auto
  next
    case nn: False
    show ?thesis
    proof (cases ds)
      case Nil
      then have c: "c = 0x3D" and s: "withoutNewlines src = []" and j: "j = 3"
        using nn Cons.prems(1,3) by (auto simp: withoutNewlines_simps)
      have m: "decodeMap c = 0xff" unfolding c by (rule pad_eq)
      obtain si' where "skipNewlines src (si + 1) = ([], si')"
        using skipNewlines_all [OF s] by blast
      then show ?thesis using m nn j c by (simp add: padChar_def StdPadding_def)
    next
      case (Cons d ds')
      then have cd: "c = d" and s: "withoutNewlines src = ds' @ [0x3D]"
        using nn Cons.prems(1) by (auto simp: withoutNewlines_simps)
      have m: "decodeMap c \<noteq> 0xff" using Cons.prems(2) Cons cd by (simp add: decodeMap_ne_iff)
      have "Suc j + length ds' = 3" using Cons.prems(3) Cons by simp
      from Cons.IH [OF s _ this, of "si + 1" "dbuf[j := decodeMap c]"] show ?thesis
        using m j4 Cons.prems(2) Cons by auto
    qed
  qed
qed


lemma quantumLoop_pad2:
  "withoutNewlines src = ds @ [0x3D, 0x3D] \<Longrightarrow> set ds \<subseteq> alphabetStd \<Longrightarrow> j + length ds = 2 \<Longrightarrow>
     \<exists>nsi dbuf'. quantumLoop len src si j dbuf = QBreak [] nsi 2 dbuf' None"
proof (induction src arbitrary: si j dbuf ds)
  case Nil
  then show ?case by (simp add: withoutNewlines_simps)
next
  case (Cons c src)
  have j4: "\<not> 4 \<le> j" using Cons.prems(3) by simp
  show ?case
  proof (cases "c = 0x0A \<or> c = 0x0D")
    case True
    then have m: "decodeMap c = 0xff"
      using alphabetStd_plain [of c] decodeMap_ne_iff [of c] by auto
    have "withoutNewlines src = ds @ [0x3D, 0x3D]"
      using True Cons.prems(1) by (auto simp: withoutNewlines_simps)
    from Cons.IH [OF this Cons.prems(2,3), of "si + 1" dbuf] show ?thesis
      using True m j4 by auto
  next
    case nn: False
    show ?thesis
    proof (cases ds)
      case Nil
      then have c: "c = 0x3D" and s: "withoutNewlines src = [0x3D]" and j: "j = 2"
        using nn Cons.prems(1,3) by (auto simp: withoutNewlines_simps)
      have m: "decodeMap c = 0xff" unfolding c by (rule pad_eq)
      obtain r si' where r: "skipNewlines src (si + 1) = (0x3D # r, si')" "withoutNewlines r = []"
        using skipNewlines_first [OF s] by blast
      obtain si'' where "skipNewlines r (si' + 1) = ([], si'')"
        using skipNewlines_all [OF r(2)] by blast
      then show ?thesis using m nn j c r(1) by (simp add: padChar_def StdPadding_def)
    next
      case (Cons d ds')
      then have cd: "c = d" and s: "withoutNewlines src = ds' @ [0x3D, 0x3D]"
        using nn Cons.prems(1) by (auto simp: withoutNewlines_simps)
      have m: "decodeMap c \<noteq> 0xff" using Cons.prems(2) Cons cd by (simp add: decodeMap_ne_iff)
      have "Suc j + length ds' = 2" using Cons.prems(3) Cons by simp
      from Cons.IH [OF s _ this, of "si + 1" "dbuf[j := decodeMap c]"] show ?thesis
        using m j4 Cons.prems(2) Cons by auto
    qed
  qed
qed

lemma decodeQuantum_of_QBreak:
  "quantumLoop len src si 0 [0, 0, 0, 0] = QBreak rest nsi dlen dbuf' None \<Longrightarrow>
     \<exists>out. decodeQuantum len src si = (rest, nsi, out, None)"
  by (simp add: decodeQuantum_def Let_def strict_def)

lemma decodeLoop_valid:
  "validStdBase64 (withoutNewlines src) \<Longrightarrow> snd (decodeLoop len src si) = None"
proof (induction len src si rule: decodeLoop.induct)
  case (1 len src si)
  show ?case
  proof (cases "src = []")
    case True
    then show ?thesis by (simp add: decodeLoop_Nil)
  next
    case ne: False
    have step: "snd (decodeLoop len src si) = None"
      if dq: "decodeQuantum len src si = (rest, nsi, out, None)"
        and v: "validStdBase64 (withoutNewlines rest)" for rest nsi out
    proof -
      have "snd (decodeLoop len rest nsi) = None"
        using "1.IH" [OF ne dq [symmetric] refl refl _ v] by simp
      then show ?thesis
        using ne dq by (subst decodeLoop.simps) (auto split: prod.splits)
    qed
    show ?thesis
    proof (cases "withoutNewlines src")
      case Nil
      obtain nsi where "quantumLoop len src si 0 [0, 0, 0, 0] = QReturn [] nsi 0 None"
        using quantumLoop_empty [OF Nil] by blast
      then have "decodeQuantum len src si = ([], nsi, [], None)"
        by (simp add: decodeQuantum_def)
      then show ?thesis by (rule step) (simp add: withoutNewlines_simps)
    next
      case (Cons a t)
      have v: "validStdBase64 (a # t)" using "1.prems" Cons by simp
      then obtain b c d u where t: "t = b # c # d # u"
        by (cases t rule: validStdBase64.cases) (auto elim: validStdBase64.elims)
      have src: "withoutNewlines src = a # b # c # d # u" using Cons t by simp
      have full: ?thesis
        if "set [a, b, c, d] \<subseteq> alphabetStd" and "validStdBase64 u"
      proof -
        have "withoutNewlines src = [a, b, c, d] @ u" using src by simp
        from quantumLoop_full [OF this that(1), of 0 len si "[0, 0, 0, 0]"]
        obtain rest nsi dbuf' where
          "quantumLoop len src si 0 [0, 0, 0, 0] = QBreak rest nsi 4 dbuf' None"
          and r: "withoutNewlines rest = u"
          by auto
        then obtain out where "decodeQuantum len src si = (rest, nsi, out, None)"
          using decodeQuantum_of_QBreak by blast
        then show ?thesis by (rule step) (simp add: r that(2))
      qed
      have pad1: ?thesis
        if "set [a, b, c] \<subseteq> alphabetStd" and "d = 0x3D" and "u = []"
      proof -
        have "withoutNewlines src = [a, b, c] @ [0x3D]" using src that(2,3) by simp
        from quantumLoop_pad1 [OF this that(1), of 0 len si "[0, 0, 0, 0]"]
        obtain nsi dbuf' where
          "quantumLoop len src si 0 [0, 0, 0, 0] = QBreak [] nsi 3 dbuf' None"
          by auto
        then obtain out where "decodeQuantum len src si = ([], nsi, out, None)"
          using decodeQuantum_of_QBreak by blast
        then show ?thesis by (rule step) (simp add: withoutNewlines_simps)
      qed
      have pad2: ?thesis
        if "set [a, b] \<subseteq> alphabetStd" and "c = 0x3D" and "d = 0x3D" and "u = []"
      proof -
        have "withoutNewlines src = [a, b] @ [0x3D, 0x3D]" using src that(2,3,4) by simp
        from quantumLoop_pad2 [OF this that(1), of 0 len si "[0, 0, 0, 0]"]
        obtain nsi dbuf' where
          "quantumLoop len src si 0 [0, 0, 0, 0] = QBreak [] nsi 2 dbuf' None"
          by auto
        then obtain out where "decodeQuantum len src si = ([], nsi, out, None)"
          using decodeQuantum_of_QBreak by blast
        then show ?thesis by (rule step) (simp add: withoutNewlines_simps)
      qed
      show ?thesis
      proof (cases u)
        case Nil
        then show ?thesis using v t full pad1 pad2 by auto
      next
        case (Cons e u')
        then show ?thesis using v t full by auto
      qed
    qed
  qed
qed

lemma quantumLoop_error:
  "quantumLoop len src si j dbuf = QReturn rest nsi n (Some err) \<or>
   quantumLoop len src si j dbuf = QBreak rest nsi dlen dbuf' (Some err) \<Longrightarrow>
     \<exists>k. err = CorruptInputError k"
  by (induction len src si j dbuf rule: quantumLoop.induct)
     (auto split: if_splits prod.splits list.splits)

lemma decodeQuantum_error:
  "decodeQuantum len src si = (rest, nsi, out, Some err) \<Longrightarrow> \<exists>k. err = CorruptInputError k"
  using quantumLoop_error [of len src si 0 "[0, 0, 0, 0]"]
  by (auto simp: decodeQuantum_def Let_def strict_def split: quantum_loop.splits if_splits)

lemma decodeLoop_error:
  "snd (decodeLoop len src si) = Some err \<Longrightarrow> \<exists>k. err = CorruptInputError k"
proof (induction len src si rule: decodeLoop.induct)
  case (1 len src si)
  show ?case
  proof (cases "src = []")
    case True
    then show ?thesis using "1.prems" by (simp add: decodeLoop_Nil)
  next
    case False
    obtain rest nsi out e where dq: "decodeQuantum len src si = (rest, nsi, out, e)"
      by (cases "decodeQuantum len src si") auto
    show ?thesis
    proof (cases e)
      case None
      then have "snd (decodeLoop len rest nsi) = Some err"
        using "1.prems" False dq by (subst (asm) decodeLoop.simps) (auto split: prod.splits)
      then show ?thesis using "1.IH" [OF False dq [symmetric] refl refl] None by simp
    next
      case (Some e')
      then have "err = e'"
        using "1.prems" False dq by (subst (asm) decodeLoop.simps) (auto split: prod.splits)
      then show ?thesis using decodeQuantum_error dq Some by blast
    qed
  qed
qed

lemma hex_DecodeString_None_iff:
  "snd (hex_DecodeString s) = None \<longleftrightarrow> validHex (bytes_of_string s)"
  using hex_Decode_None validHex_Decode by (auto simp: hex_DecodeString_def)

lemma base64_DecodeString_None_iff:
  "snd (base64_DecodeString s) = None \<longleftrightarrow> validStdBase64 (withoutNewlines (bytes_of_string s))"
  using decodeLoop_None decodeLoop_valid by (auto simp: base64_DecodeString_def Let_def)

lemma base64_DecodeString_newline:
  "base64_DecodeString (''QUJD'' @ [CHR 0x0A]) = ([0x41, 0x42, 0x43], None)"
  by code_simp

lemma not_valid_newline: "\<not> validStdBase64 (bytes_of_string (''QUJD'' @ [CHR 0x0A]))"
  by (simp add: bytes_of_string_def alphabetStd_def encodeStd_def)

text \<open>
  C6, as the spec states it: every string that is not valid standard-alphabet base64 is
  rejected by the \<open>b64\<close> branch with a decode error. It fails for \<open>QUJD\<close> followed by a
  line feed: the line feed is no character of the alphabet, and the decoder skips it and
  returns the three bytes \<open>ABC\<close> with no error.
\<close>

theorem base64_newline_accepted:
  "\<not> validStdBase64 (bytes_of_string (''QUJD'' @ [CHR 0x0A]))
   \<and> DecodeString \<lparr>dec = asciiDecodeString, asciiF = False, hexF = False, b64F = True\<rparr>
        (''QUJD'' @ [CHR 0x0A])
       = ([CallBase64], ([0x41, 0x42, 0x43], None))"
  by (simp add: not_valid_newline DecodeString_def base64_DecodeString_newline del: append.simps)

text \<open>
  C6, amended. With the flag \<open>hex\<close> alone, every argument that is not an even-length
  string of hexadecimal digits makes \<open>DecodeString\<close> return an error of the hex decoder
  (\<open>ErrLength\<close> or \<open>InvalidByteError\<close>). With the flag \<open>b64\<close> alone, every argument
  that is not valid standard base64 once its line feeds and carriage returns are dropped
  makes \<open>DecodeString\<close> return a \<open>CorruptInputError\<close>. In both cases the error is not
  \<open>nil\<close>, whatever bytes come with it. These are all the rejected arguments: a valid hex
  string, and a string that is valid base64 without its line breaks, decode with no
  error.
\<close>

theorem malformed_input_rejected:
  "(\<not> asciiF a \<and> hexF a \<and> \<not> b64F a \<and> \<not> validHex (bytes_of_string s) \<longrightarrow>
      (\<exists>out err. DecodeString a s = ([CallHex], (out, Some err))
         \<and> (err = ErrLength \<or> (\<exists>b. err = InvalidByteError b))))
   \<and> (\<not> asciiF a \<and> \<not> hexF a \<and> b64F a
        \<and> \<not> validStdBase64 (withoutNewlines (bytes_of_string s)) \<longrightarrow>
      (\<exists>out k. DecodeString a s = ([CallBase64], (out, Some (CorruptInputError k)))))
   \<and> (\<not> asciiF a \<and> hexF a \<and> \<not> b64F a \<and> validHex (bytes_of_string s) \<longrightarrow>
      snd (snd (DecodeString a s)) = None)
   \<and> (\<not> asciiF a \<and> \<not> hexF a \<and> b64F a
        \<and> validStdBase64 (withoutNewlines (bytes_of_string s)) \<longrightarrow>
      snd (snd (DecodeString a s)) = None)"
proof -
  have hex: "\<exists>out err. hex_DecodeString s = (out, Some err)
               \<and> (err = ErrLength \<or> (\<exists>b. err = InvalidByteError b))"
    if "\<not> validHex (bytes_of_string s)"
  proof -
    obtain out e where r: "hex_DecodeString s = (out, e)" by (cases "hex_DecodeString s") auto
    then have "e \<noteq> None" using that hex_DecodeString_None_iff [of s] by auto
    then obtain err where e: "e = Some err" by auto
    then have "err = ErrLength \<or> (\<exists>b. err = InvalidByteError b)"
      using hex_Decode_error [of "bytes_of_string s" err] r by (simp add: hex_DecodeString_def)
    then show ?thesis using r e by simp
  qed
  have b64: "\<exists>out k. base64_DecodeString s = (out, Some (CorruptInputError k))"
    if "\<not> validStdBase64 (withoutNewlines (bytes_of_string s))"
  proof -
    obtain out e where r: "base64_DecodeString s = (out, e)"
      by (cases "base64_DecodeString s") auto
    then have "e \<noteq> None" using that base64_DecodeString_None_iff [of s] by auto
    then obtain err where e: "e = Some err" by auto
    then have "\<exists>k. err = CorruptInputError k"
      using decodeLoop_error [of "int (length (bytes_of_string s))" "bytes_of_string s" 0 err] r
      by (simp add: base64_DecodeString_def Let_def)
    then show ?thesis using r e by auto
  qed
  show ?thesis
    using hex b64 hex_DecodeString_None_iff [of s] base64_DecodeString_None_iff [of s]
    unfolding DecodeString_def scanFlags_three by auto
qed

lemma hex_DecodeString_odd: "hex_DecodeString ''abc'' = ([0xab], Some ErrLength)"
  by code_simp

lemma base64_DecodeString_bad_padding:
  "base64_DecodeString ''QQ='' = ([], Some (CorruptInputError 3))"
  by code_simp

theorem malformed_input_rejected_witness:
  "\<not> validHex (bytes_of_string ''abc'')
   \<and> DecodeString \<lparr>dec = asciiDecodeString, asciiF = False, hexF = True, b64F = False\<rparr> ''abc''
       = ([CallHex], ([0xab], Some ErrLength))
   \<and> \<not> validStdBase64 (withoutNewlines (bytes_of_string ''QQ=''))
   \<and> DecodeString \<lparr>dec = asciiDecodeString, asciiF = False, hexF = False, b64F = True\<rparr> ''QQ=''
       = ([CallBase64], ([], Some (CorruptInputError 3)))"
proof -
  have h: "\<not> validHex (bytes_of_string ''abc'')"
    by (simp add: validHex_def bytes_of_string_def)
  have b: "\<not> validStdBase64 (withoutNewlines (bytes_of_string ''QQ=''))"
    by (simp add: withoutNewlines_def bytes_of_string_def)
  have "\<exists>out err. DecodeString \<lparr>dec = asciiDecodeString, asciiF = False, hexF = True, b64F = False\<rparr>
          ''abc'' = ([CallHex], (out, Some err))"
    using h malformed_input_rejected
      [of "\<lparr>dec = asciiDecodeString, asciiF = False, hexF = True, b64F = False\<rparr>" "''abc''"]
    by auto
  then have 1: "DecodeString \<lparr>dec = asciiDecodeString, asciiF = False, hexF = True, b64F = False\<rparr>
          ''abc'' = ([CallHex], ([0xab], Some ErrLength))"
    by (simp add: DecodeString_def hex_DecodeString_odd)
  have "\<exists>out k. DecodeString \<lparr>dec = asciiDecodeString, asciiF = False, hexF = False, b64F = True\<rparr>
          ''QQ='' = ([CallBase64], (out, Some (CorruptInputError k)))"
    using b malformed_input_rejected
      [of "\<lparr>dec = asciiDecodeString, asciiF = False, hexF = False, b64F = True\<rparr>" "''QQ=''"]
    by auto
  then have 2: "DecodeString \<lparr>dec = asciiDecodeString, asciiF = False, hexF = False, b64F = True\<rparr>
          ''QQ='' = ([CallBase64], ([], Some (CorruptInputError 3)))"
    by (simp add: DecodeString_def base64_DecodeString_bad_padding)
  show ?thesis using h b 1 2 by simp
qed

end
